theory Spec2Isabelle
  imports Main "HOL-Library.Product_Lexorder"
begin

section \<open>Python values used by the scheduler\<close>

text \<open>
  The exceptions the modelled code can raise. \<open>OverflowError\<close> comes from
  \<^verbatim>\<open>datetime + timedelta\<close> leaving the range of \<^verbatim>\<open>datetime\<close>, \<open>ValueError\<close> from
  \<^verbatim>\<open>datetime.replace\<close> with an hour or minute out of range, \<open>KeyError\<close> from a
  dictionary subscript on a missing key.
\<close>

datatype error = OverflowError | ValueError | KeyError

text \<open>
  A naive \<^verbatim>\<open>datetime\<close>. The calendar date is kept as its proleptic Gregorian
  ordinal (\<^verbatim>\<open>date.toordinal()\<close>, 1 for 0001-01-01), since the scheduler reads the date
  only through \<^verbatim>\<open>weekday()\<close> and through arithmetic with \<^verbatim>\<open>timedelta\<close>.
\<close>

record datetime =
  ordinal :: int
  hour :: int
  minute :: int
  second :: int
  microsecond :: int

abbreviation MAXORDINAL :: int where
  "MAXORDINAL \<equiv> 3652059"

abbreviation US_MINUTE :: int where
  "US_MINUTE \<equiv> 60000000"

abbreviation US_HOUR :: int where
  "US_HOUR \<equiv> 3600000000"

abbreviation US_DAY :: int where
  "US_DAY \<equiv> 86400000000"

text \<open>The values a \<^verbatim>\<open>datetime\<close> object can hold: dates from 0001-01-01 to
  9999-12-31 (ordinal \<open>MAXORDINAL\<close>) and a time of day.\<close>

definition valid_datetime :: "datetime \<Rightarrow> bool" where
  "valid_datetime t \<longleftrightarrow>
     1 \<le> ordinal t \<and> ordinal t \<le> MAXORDINAL \<and>
     0 \<le> hour t \<and> hour t < 24 \<and>
     0 \<le> minute t \<and> minute t < 60 \<and>
     0 \<le> second t \<and> second t < 60 \<and>
     0 \<le> microsecond t \<and> microsecond t < 1000000"

text \<open>Microseconds since midnight of ordinal 0: the linear time line on which
  datetimes are compared, subtracted and shifted.\<close>

definition to_us :: "datetime \<Rightarrow> int" where
  "to_us t = ordinal t * US_DAY + hour t * US_HOUR + minute t * US_MINUTE
             + second t * 1000000 + microsecond t"

definition of_us :: "int \<Rightarrow> datetime" where
  "of_us n = \<lparr> ordinal = n div US_DAY,
              hour = (n mod US_DAY) div US_HOUR,
              minute = (n mod US_HOUR) div US_MINUTE,
              second = (n mod US_MINUTE) div 1000000,
              microsecond = n mod 1000000 \<rparr>"

text \<open>A \<^verbatim>\<open>timedelta\<close> is its total number of microseconds.\<close>

type_synonym timedelta = int

definition td_days :: "int \<Rightarrow> timedelta" where
  "td_days n = n * US_DAY"

definition td_hours :: "int \<Rightarrow> timedelta" where
  "td_hours n = n * US_HOUR"

definition td_minutes :: "int \<Rightarrow> timedelta" where
  "td_minutes n = n * US_MINUTE"

text \<open>\<^verbatim>\<open>datetime.__add__\<close>: the sum is renormalised and must fall on an ordinal in
  \<open>1..MAXORDINAL\<close>, otherwise \<^verbatim>\<open>OverflowError\<close> is raised.\<close>

definition dt_add :: "datetime \<Rightarrow> timedelta \<Rightarrow> error + datetime" where
  "dt_add t delta =
     (let n = to_us t + delta in
      if 0 < n div US_DAY \<and> n div US_DAY \<le> MAXORDINAL then Inr (of_us n)
      else Inl OverflowError)"

text \<open>\<^verbatim>\<open>a - b\<close> on datetimes, as a timedelta.\<close>

definition dt_sub :: "datetime \<Rightarrow> datetime \<Rightarrow> timedelta" where
  "dt_sub a b = to_us a - to_us b"

definition dt_less :: "datetime \<Rightarrow> datetime \<Rightarrow> bool" where
  "dt_less a b \<longleftrightarrow> to_us a < to_us b"

definition dt_le :: "datetime \<Rightarrow> datetime \<Rightarrow> bool" where
  "dt_le a b \<longleftrightarrow> to_us a \<le> to_us b"

text \<open>\<^verbatim>\<open>max(a, b)\<close> returns its first argument unless the second is larger.\<close>

definition dt_max :: "datetime \<Rightarrow> datetime \<Rightarrow> datetime" where
  "dt_max a b = (if dt_less a b then b else a)"

text \<open>\<^verbatim>\<open>weekday()\<close>: 0 is Monday, 6 is Sunday.\<close>

definition weekday :: "datetime \<Rightarrow> int" where
  "weekday t = (ordinal t + 6) mod 7"

text \<open>\<^verbatim>\<open>t.replace(hour=h, minute=m, second=0, microsecond=0)\<close>.\<close>

definition replace_hm :: "datetime \<Rightarrow> int \<Rightarrow> int \<Rightarrow> error + datetime" where
  "replace_hm t h m =
     (if 0 \<le> h \<and> h < 24 \<and> 0 \<le> m \<and> m < 60
      then Inr (t\<lparr>hour := h, minute := m, second := 0, microsecond := 0\<rparr>)
      else Inl ValueError)"

text \<open>\<^verbatim>\<open>t.replace(second=0, microsecond=0)\<close>.\<close>

definition replace_s :: "datetime \<Rightarrow> datetime" where
  "replace_s t = t\<lparr>second := 0, microsecond := 0\<rparr>"

text \<open>Calendar dates, for writing concrete inputs: the ordinal of year, month, day.\<close>

definition is_leap :: "int \<Rightarrow> bool" where
  "is_leap y \<longleftrightarrow> y mod 4 = 0 \<and> (y mod 100 \<noteq> 0 \<or> y mod 400 = 0)"

definition days_before_year :: "int \<Rightarrow> int" where
  "days_before_year y = (y - 1) * 365 + (y - 1) div 4 - (y - 1) div 100 + (y - 1) div 400"

definition days_before_month :: "int \<Rightarrow> int \<Rightarrow> int" where
  "days_before_month y m =
     [0, 31, 59, 90, 120, 151, 181, 212, 243, 273, 304, 334] ! nat (m - 1)
     + (if m > 2 \<and> is_leap y then 1 else 0)"

definition ymd2ord :: "int \<Rightarrow> int \<Rightarrow> int \<Rightarrow> int" where
  "ymd2ord y m d = days_before_year y + days_before_month y m + d"

definition mk_datetime :: "int \<Rightarrow> int \<Rightarrow> int \<Rightarrow> int \<Rightarrow> int \<Rightarrow> datetime" where
  "mk_datetime y m d h mi =
     \<lparr> ordinal = ymd2ord y m d, hour = h, minute = mi, second = 0, microsecond = 0 \<rparr>"

text \<open>
  \<^verbatim>\<open>str.lower()\<close> is a function of the Python runtime that works on all of Unicode
  (the Kelvin sign U+212A, for one, lowers to \<open>k\<close>). The functions below that reach it
  take it as their first argument \<open>lower\<close>, so that a statement about every platform
  string holds for the real \<^verbatim>\<open>str.lower\<close>, whatever its tables are. On a string of
  ASCII characters \<^verbatim>\<open>str.lower()\<close> maps \<open>A\<close> to \<open>Z\<close> onto \<open>a\<close> to \<open>z\<close> and leaves the
  rest: that is \<open>ascii_lower\<close>, which stands for it where the platform names are ASCII
  literals.
\<close>

definition ascii_lower_char :: "char \<Rightarrow> char" where
  "ascii_lower_char c =
     (let n = (of_char c :: nat) in if 65 \<le> n \<and> n \<le> 90 then char_of (n + 32) else c)"

definition ascii_lower :: "string \<Rightarrow> string" where
  "ascii_lower s = map ascii_lower_char s"

section \<open>PostScheduler\<close>

text \<open>A slot is \<open>(day_of_week, hour, minute)\<close>; \<^verbatim>\<open>self.optimal_times\<close> maps a
  platform name to its slots.\<close>

type_synonym slot = "int \<times> int \<times> int"

type_synonym slot_table = "string \<rightharpoonup> slot list"

definition twitter_times :: "slot list" where
  "twitter_times =
     [(0, 9, 0), (1, 9, 0), (2, 9, 0), (3, 9, 0), (4, 9, 0),
      (0, 12, 0), (1, 12, 0), (2, 12, 0), (3, 12, 0), (4, 12, 0),
      (0, 17, 0), (1, 17, 0), (2, 17, 0), (3, 17, 0), (4, 17, 0),
      (5, 11, 0), (6, 11, 0)]"

definition instagram_times :: "slot list" where
  "instagram_times =
     [(0, 10, 30), (1, 10, 30), (2, 10, 30), (3, 10, 30), (4, 10, 30),
      (0, 18, 0), (1, 18, 0), (2, 18, 0), (3, 18, 0), (4, 18, 0),
      (5, 11, 0), (5, 19, 0), (6, 11, 0), (6, 19, 0)]"

definition linkedin_times :: "slot list" where
  "linkedin_times =
     [(1, 10, 0), (1, 14, 0), (2, 10, 0), (2, 14, 0), (3, 10, 0), (3, 14, 0),
      (0, 11, 0), (4, 11, 0)]"

text \<open>The table \<^verbatim>\<open>__init__\<close> installs.\<close>

definition optimal_times :: slot_table where
  "optimal_times =
     [''twitter'' \<mapsto> twitter_times, ''instagram'' \<mapsto> instagram_times,
      ''linkedin'' \<mapsto> linkedin_times]"

text \<open>The slots of one weekday as sorted \<open>(hour, minute)\<close> pairs; on the first day
  (\<open>day_offset = 0\<close>) only those later than the time of day of \<open>from_time\<close>.\<close>

definition day_times :: "slot list \<Rightarrow> datetime \<Rightarrow> int \<Rightarrow> (int \<times> int) list" where
  "day_times platform_times from_time day_offset =
     (let target_day = (weekday from_time + day_offset) mod 7;
          ts = sort [(h, m). (d, h, m) \<leftarrow> platform_times, d = target_day]
      in if day_offset = 0
         then filter (\<lambda>(h, m). h > hour from_time \<or> (h = hour from_time \<and> m > minute from_time)) ts
         else ts)"

text \<open>The loop over \<^verbatim>\<open>range(max_days_ahead)\<close>, and after it the default: the same
  time tomorrow, cut to the minute.\<close>

fun scan_days :: "slot list \<Rightarrow> datetime \<Rightarrow> int list \<Rightarrow> error + datetime" where
  "scan_days platform_times from_time [] =
     (case dt_add from_time (td_days 1) of
        Inl e \<Rightarrow> Inl e
      | Inr default_time \<Rightarrow> Inr (replace_s default_time))"
| "scan_days platform_times from_time (day_offset # rest) =
     (case day_times platform_times from_time day_offset of
        [] \<Rightarrow> scan_days platform_times from_time rest
      | (h, m) # _ \<Rightarrow>
          (case dt_add from_time (td_days day_offset) of
             Inl e \<Rightarrow> Inl e
           | Inr optimal_time \<Rightarrow> replace_hm optimal_time h m))"

text \<open>
  \<^verbatim>\<open>get_optimal_time\<close>, with \<^verbatim>\<open>str.lower\<close> and the slot table of the instance as
  first arguments.
  \<open>from_time\<close> is the base time after the default has been resolved: a call without it
  passes the reading of the clock. The log messages are left out.
\<close>

definition get_optimal_time ::
  "(string \<Rightarrow> string) \<Rightarrow> slot_table \<Rightarrow> string \<Rightarrow> datetime \<Rightarrow> int \<Rightarrow> error + datetime" where
  "get_optimal_time lower table platform from_time max_days_ahead =
     (let platform = lower platform;
          platform = (if platform \<notin> dom table then ''twitter'' else platform)
      in case table platform of
           None \<Rightarrow> Inl KeyError
         | Some platform_times \<Rightarrow> scan_days platform_times from_time [0..max_days_ahead - 1])"

text \<open>
  \<^verbatim>\<open>td.total_seconds() < secs\<close> for an integer \<open>secs\<close>. \<^verbatim>\<open>total_seconds()\<close> is the
  float nearest to the exact quotient of the microseconds by \<open>10^6\<close>. The scheduler
  only subtracts datetimes whose second and microsecond are 0, so the quotient is a whole
  number below \<open>2^53\<close> and the float is exact; Python compares a float with an int
  exactly. Hence the comparison is the one on microseconds.
\<close>

definition total_seconds_less :: "timedelta \<Rightarrow> int \<Rightarrow> bool" where
  "total_seconds_less td secs \<longleftrightarrow> td < secs * 1000000"

text \<open>The body of the loop of \<^verbatim>\<open>get_bulk_schedule\<close>, run \<open>n\<close> more times;
  \<^verbatim>\<open>get_optimal_time\<close> is called with its default \<^verbatim>\<open>max_days_ahead = 7\<close>.\<close>

fun bulk_loop ::
  "(string \<Rightarrow> string) \<Rightarrow> slot_table \<Rightarrow> string \<Rightarrow> int \<Rightarrow> nat \<Rightarrow> datetime list \<Rightarrow> datetime \<Rightarrow> error + datetime list" where
  "bulk_loop lower table platform min_hours_between 0 schedule current_time = Inr schedule"
| "bulk_loop lower table platform min_hours_between (Suc n) schedule current_time =
     (case get_optimal_time lower table platform current_time 7 of
        Inl e \<Rightarrow> Inl e
      | Inr next_time \<Rightarrow>
          (case (if schedule \<noteq> [] \<and>
                    total_seconds_less (dt_sub next_time (last schedule)) (min_hours_between * 3600)
                 then dt_add (last schedule) (td_hours min_hours_between)
                 else Inr next_time) of
             Inl e \<Rightarrow> Inl e
           | Inr next_time \<Rightarrow>
               (case dt_add next_time (td_minutes 1) of
                  Inl e \<Rightarrow> Inl e
                | Inr current_time \<Rightarrow>
                    bulk_loop lower table platform min_hours_between n
                      (schedule @ [next_time]) current_time)))"

definition get_bulk_schedule ::
  "(string \<Rightarrow> string) \<Rightarrow> slot_table \<Rightarrow> string \<Rightarrow> int \<Rightarrow> datetime \<Rightarrow> int \<Rightarrow> error + datetime list" where
  "get_bulk_schedule lower table platform count from_time min_hours_between =
     bulk_loop lower table platform min_hours_between (nat count) [] from_time"

text \<open>The loop of \<^verbatim>\<open>get_multi_platform_schedule\<close> over the remaining platforms.\<close>

fun multi_loop ::
  "(string \<Rightarrow> string) \<Rightarrow> slot_table \<Rightarrow> int \<Rightarrow> string list \<Rightarrow> (string \<rightharpoonup> datetime) \<Rightarrow> datetime
     \<Rightarrow> error + (string \<rightharpoonup> datetime)" where
  "multi_loop lower table stagger_minutes [] schedule current_time = Inr schedule"
| "multi_loop lower table stagger_minutes (platform # platforms) schedule current_time =
     (case get_optimal_time lower table platform current_time 7 of
        Inl e \<Rightarrow> Inl e
      | Inr next_time \<Rightarrow>
          (case dt_add current_time (td_minutes stagger_minutes) of
             Inl e \<Rightarrow> Inl e
           | Inr a \<Rightarrow>
               (case dt_add next_time (td_minutes stagger_minutes) of
                  Inl e \<Rightarrow> Inl e
                | Inr b \<Rightarrow>
                    multi_loop lower table stagger_minutes platforms
                      (schedule(platform \<mapsto> next_time)) (dt_max a b))))"

definition get_multi_platform_schedule ::
  "(string \<Rightarrow> string) \<Rightarrow> slot_table \<Rightarrow> string list \<Rightarrow> datetime \<Rightarrow> int \<Rightarrow> error + (string \<rightharpoonup> datetime)" where
  "get_multi_platform_schedule lower table platforms from_time stagger_minutes =
     multi_loop lower table stagger_minutes platforms Map.empty from_time"

section \<open>Predicates used to state the properties\<close>

text \<open>Every slot of a table entry has an hour and a minute that \<^verbatim>\<open>replace\<close> accepts.\<close>

definition wf_slots :: "slot list \<Rightarrow> bool" where
  "wf_slots platform_times \<longleftrightarrow>
     (\<forall>(d, h, m) \<in> set platform_times. 0 \<le> h \<and> h < 24 \<and> 0 \<le> m \<and> m < 60)"

text \<open>Two consecutive entries of a schedule: not decreasing, and at least
  \<open>min_hours_between\<close> hours apart.\<close>

definition spaced :: "int \<Rightarrow> datetime \<Rightarrow> datetime \<Rightarrow> bool" where
  "spaced min_hours_between a b \<longleftrightarrow> dt_le a b \<and> td_hours min_hours_between \<le> dt_sub b a"

text \<open>A slot table on which \<^verbatim>\<open>get_optimal_time\<close> raises neither \<^verbatim>\<open>KeyError\<close> nor
  \<^verbatim>\<open>ValueError\<close>: the default platform is present and all slots are well formed.\<close>

definition wf_table :: "slot_table \<Rightarrow> bool" where
  "wf_table table \<longleftrightarrow>
     ''twitter'' \<in> dom table \<and> (\<forall>p \<in> dom table. wf_slots (the (table p)))"

text \<open>The slot table of the bulk-schedule scenario: twitter on Monday 9:00 and Tuesday
  9:00 only.\<close>

abbreviation mon_tue :: slot_table where
  "mon_tue \<equiv> [''twitter'' \<mapsto> [(0, 9, 0), (1, 9, 0)]]"

section \<open>Orchestrator\<close>

text \<open>
  An entry of the content pool: the dictionary \<^verbatim>\<open>create_content\<close> stores, with the keys
  the orchestrator reads and writes (\<^verbatim>\<open>id\<close>, \<^verbatim>\<open>used\<close>, \<^verbatim>\<open>scheduled_time\<close>) and the
  generated content as an opaque payload.
\<close>

record content_item =
  item_id :: string
  payload :: string
  used :: bool
  scheduled_time :: "datetime option"

text \<open>The content pool file: platform name to list of entries.\<close>

type_synonym content_pool = "string \<rightharpoonup> content_item list"

text \<open>What \<^verbatim>\<open>self.scheduler.schedule_post(...)\<close> does: it returns a dictionary whose
  \<^verbatim>\<open>status\<close> the orchestrator reads, or it raises.\<close>

datatype post_outcome = Returned string | Raised

text \<open>What \<^verbatim>\<open>generate_for_platform\<close> does: content, a falsy value, or an exception.\<close>

datatype gen_outcome = Content content_item | NoContent | GenRaised

text \<open>
  The configuration of an \<^verbatim>\<open>Orchestrator\<close> and the collaborators of one cycle: the
  scheduler agent, the human reviewer, the content creator, the trend scanner and the
  clock. \<open>scan_due\<close> and \<open>creation_due\<close> are the two interval tests of
  \<^verbatim>\<open>run_daily_cycle\<close>; \<open>trend_data_ok\<close> says that \<^verbatim>\<open>create_content\<close> obtains the trend
  report (the file exists or a scan produces it, and it loads).
\<close>

record env =
  platforms :: "string list"
  human_review :: bool
  max_posts_per_day :: "string \<rightharpoonup> int"
  schedule_post :: "string \<Rightarrow> content_item \<Rightarrow> datetime \<Rightarrow> post_outcome"
  request_human_approval :: "string \<Rightarrow> content_item \<Rightarrow> datetime \<Rightarrow> bool"
  generate_for_platform :: "string \<Rightarrow> gen_outcome"
  scan_due :: bool
  scan_trends_ok :: bool
  creation_due :: bool
  trend_data_ok :: bool
  now :: datetime

text \<open>A call of \<^verbatim>\<open>schedule_post\<close>: platform, post id, time, and what came back.\<close>

type_synonym post_call = "string \<times> string \<times> datetime \<times> post_outcome"

text \<open>
  What persists between cycles and what the outside has seen: the content pool file, the
  calls made to \<^verbatim>\<open>schedule_post\<close> and the platforms for which content generation was
  requested, both in order. The file is taken to load and save without error.
\<close>

record world =
  store :: content_pool
  post_calls :: "post_call list"
  gen_calls :: "string list"

text \<open>The loop of \<^verbatim>\<open>create_content\<close> over the platforms: the generator is called
  for each platform in turn (\<open>calls\<close> records for which). A falsy result, an exception
  of the generator and a platform missing from the pool (\<^verbatim>\<open>KeyError\<close> on
  \<^verbatim>\<open>content_pool[platform]\<close>) are caught inside the loop and leave the pool as it is.\<close>

fun generate_all ::
  "env \<Rightarrow> string list \<Rightarrow> content_pool \<Rightarrow> string list \<Rightarrow> content_pool \<times> string list" where
  "generate_all e [] content_pool calls = (content_pool, calls)"
| "generate_all e (platform # rest) content_pool calls =
     (case generate_for_platform e platform of
        Content content \<Rightarrow>
          (case content_pool platform of
             None \<Rightarrow> generate_all e rest content_pool (calls @ [platform])
           | Some items \<Rightarrow>
               generate_all e rest
                 (content_pool(platform \<mapsto> items @ [content\<lparr>used := False\<rparr>]))
                 (calls @ [platform]))
      | NoContent \<Rightarrow> generate_all e rest content_pool (calls @ [platform])
      | GenRaised \<Rightarrow> generate_all e rest content_pool (calls @ [platform]))"

definition create_content :: "env \<Rightarrow> world \<Rightarrow> bool \<times> world" where
  "create_content e w =
     (if \<not> trend_data_ok e then (False, w)
      else (case generate_all e (platforms e) (store w) (gen_calls w) of
              (content_pool, calls) \<Rightarrow> (True, w\<lparr>store := content_pool, gen_calls := calls\<rparr>)))"

text \<open>The positions of the unused entries of a platform's list:
  \<^verbatim>\<open>[c for c in content_pool[platform] if not c.get('used', False)]\<close>, kept as positions
  because the loop below updates the entries in place.\<close>

definition unused_content :: "content_item list \<Rightarrow> nat list" where
  "unused_content items = [i \<leftarrow> [0..<length items]. \<not> used (items ! i)]"

text \<open>The first loop of \<^verbatim>\<open>schedule_posts\<close>: is there unused content for some platform?
  It stops at the first platform that has some; \<open>None\<close> is the \<^verbatim>\<open>KeyError\<close> of a
  platform missing from the pool.\<close>

fun has_content :: "string list \<Rightarrow> content_pool \<Rightarrow> bool option" where
  "has_content [] content_pool = Some False"
| "has_content (platform # rest) content_pool =
     (case content_pool platform of
        None \<Rightarrow> None
      | Some items \<Rightarrow>
          if unused_content items \<noteq> [] then Some True else has_content rest content_pool)"

text \<open>
  The inner loop of \<^verbatim>\<open>schedule_posts\<close> over the (entry, time) pairs of one platform.
  The result is the updated list, or \<open>None\<close> when \<^verbatim>\<open>schedule_post\<close> raised, together
  with the calls made so far.
\<close>

fun schedule_items ::
  "env \<Rightarrow> string \<Rightarrow> (nat \<times> datetime) list \<Rightarrow> content_item list \<Rightarrow> post_call list
     \<Rightarrow> content_item list option \<times> post_call list" where
  "schedule_items e platform [] items calls = (Some items, calls)"
| "schedule_items e platform ((i, posting_time) # rest) items calls =
     (if human_review e \<and> \<not> request_human_approval e platform (items ! i) posting_time
      then schedule_items e platform rest items calls
      else
        (case schedule_post e platform (items ! i) posting_time of
           Raised \<Rightarrow> (None, calls @ [(platform, item_id (items ! i), posting_time, Raised)])
         | Returned status \<Rightarrow>
             schedule_items e platform rest
               (if status = ''scheduled''
                then items[i := (items ! i)\<lparr>used := True, scheduled_time := Some posting_time\<rparr>]
                else items)
               (calls @ [(platform, item_id (items ! i), posting_time, Returned status)])))"

text \<open>
  The second loop of \<^verbatim>\<open>schedule_posts\<close> over the platforms. \<open>None\<close> is an exception
  that leaves the loop: a platform missing from the pool, \<^verbatim>\<open>OverflowError\<close> from the
  time computations, or \<^verbatim>\<open>schedule_post\<close> raising.
\<close>

fun schedule_platforms ::
  "(string \<Rightarrow> string) \<Rightarrow> env \<Rightarrow> string list \<Rightarrow> content_pool \<Rightarrow> post_call list
     \<Rightarrow> content_pool option \<times> post_call list" where
  "schedule_platforms lower e [] content_pool calls = (Some content_pool, calls)"
| "schedule_platforms lower e (platform # rest) content_pool calls =
     (case content_pool platform of
        None \<Rightarrow> (None, calls)
      | Some items \<Rightarrow>
          if unused_content items = [] then schedule_platforms lower e rest content_pool calls
          else
            (let max_posts = (case max_posts_per_day e platform of None \<Rightarrow> 1 | Some n \<Rightarrow> n);
                 posts_to_schedule = min (int (length (unused_content items))) max_posts
             in case dt_add (now e) (td_minutes 15) of
                  Inl err \<Rightarrow> (None, calls)
                | Inr from_time \<Rightarrow>
                    (case get_bulk_schedule lower optimal_times platform posts_to_schedule from_time 3 of
                       Inl err \<Rightarrow> (None, calls)
                     | Inr posting_times \<Rightarrow>
                         (case schedule_items e platform
                                 (zip (take (nat posts_to_schedule) (unused_content items))
                                      posting_times)
                                 items calls of
                            (None, calls') \<Rightarrow> (None, calls')
                          | (Some items', calls') \<Rightarrow>
                              schedule_platforms lower e rest (content_pool(platform \<mapsto> items'))
                                calls'))))"

text \<open>
  \<^verbatim>\<open>schedule_posts\<close>: the pool is saved only when the platform loop ends normally; the
  \<^verbatim>\<open>except\<close> clause around the whole body returns \<^verbatim>\<open>False\<close> without saving.
\<close>

definition schedule_posts :: "(string \<Rightarrow> string) \<Rightarrow> env \<Rightarrow> world \<Rightarrow> bool \<times> world" where
  "schedule_posts lower e w =
     (case has_content (platforms e) (store w) of
        None \<Rightarrow> (False, w)
      | Some has \<Rightarrow>
          (case (if \<not> has then create_content e w else (True, w)) of
             (False, w1) \<Rightarrow> (False, w1)
           | (True, w1) \<Rightarrow>
               (case schedule_platforms lower e (platforms e) (store w1) (post_calls w1) of
                  (None, calls) \<Rightarrow> (False, w1\<lparr>post_calls := calls\<rparr>)
                | (Some content_pool, calls) \<Rightarrow>
                    (True, w1\<lparr>store := content_pool, post_calls := calls\<rparr>))))"

text \<open>\<^verbatim>\<open>run_daily_cycle\<close>: scan if due, create content if due, schedule; each failed
  step ends the cycle.\<close>

definition run_daily_cycle :: "(string \<Rightarrow> string) \<Rightarrow> env \<Rightarrow> world \<Rightarrow> world" where
  "run_daily_cycle lower e w =
     (if scan_due e \<and> \<not> scan_trends_ok e then w
      else
        (case (if creation_due e then create_content e w else (True, w)) of
           (False, w1) \<Rightarrow> w1
         | (True, w1) \<Rightarrow> snd (schedule_posts lower e w1)))"

text \<open>The default \<^verbatim>\<open>max_posts_per_day\<close>.\<close>

definition default_max_posts :: "string \<rightharpoonup> int" where
  "default_max_posts = [''twitter'' \<mapsto> 5, ''instagram'' \<mapsto> 2, ''linkedin'' \<mapsto> 1]"

text \<open>
  A situation the orchestrator can be in: the pool file was created by a run for twitter
  and linkedin, so it has no key \<^verbatim>\<open>instagram\<close>, and the orchestrator now runs for the
  three default platforms. Each of the two platforms in the file holds one unused entry.
  The scheduler agent accepts every post, no human review, and neither scan nor content
  creation is due. \<open>monday_env\<close> is a cycle on Monday 2024-01-01 at 08:00, \<open>tuesday_env\<close>
  the cycle one day later.
\<close>

definition twitter_item :: content_item where
  "twitter_item =
     \<lparr>item_id = ''twitter_1'', payload = ''t'', used = False, scheduled_time = None\<rparr>"

definition linkedin_item :: content_item where
  "linkedin_item =
     \<lparr>item_id = ''linkedin_1'', payload = ''l'', used = False, scheduled_time = None\<rparr>"

definition two_platform_file :: world where
  "two_platform_file =
     \<lparr>store = [''twitter'' \<mapsto> [twitter_item], ''linkedin'' \<mapsto> [linkedin_item]],
      post_calls = [], gen_calls = []\<rparr>"

definition monday_env :: env where
  "monday_env =
     \<lparr>platforms = [''twitter'', ''instagram'', ''linkedin''], human_review = False,
      max_posts_per_day = default_max_posts,
      schedule_post = (\<lambda>platform content t. Returned ''scheduled''),
      request_human_approval = (\<lambda>platform content t. True),
      generate_for_platform = (\<lambda>platform. NoContent),
      scan_due = False, scan_trends_ok = True, creation_due = False, trend_data_ok = True,
      now = mk_datetime 2024 1 1 8 0\<rparr>"

definition tuesday_env :: env where
  "tuesday_env = monday_env\<lparr>now := mk_datetime 2024 1 2 8 0\<rparr>"





definition three_platform_file :: world where
  "three_platform_file =
     \<lparr>store = [''twitter'' \<mapsto> [twitter_item], ''instagram'' \<mapsto> [],
               ''linkedin'' \<mapsto> [linkedin_item]],
      post_calls = [], gen_calls = []\<rparr>"

definition raising_env :: env where
  "raising_env =
     monday_env\<lparr>schedule_post :=
       (\<lambda>platform content t. if platform = ''twitter'' then Raised else Returned ''scheduled'')\<rparr>"

section \<open>PostDispatcher\<close>

text \<open>
  Modelled from the spec: the scheduler agent (\<^verbatim>\<open>agents/scheduler/scheduler_agent.py\<close>,
  class \<^verbatim>\<open>SchedulerAgent\<close>) is imported by the orchestrator but is not among the source
  files. The definitions of this section follow section 4.4 of the specification.
\<close>

datatype post_status = Pending | Approved | Rejected | Dispatched | Retrying | Failed

text \<open>Modelled from the spec: what \<^verbatim>\<open>PlatformPublisher.publish\<close> answers: success, or
  one of the two kinds of external error.\<close>

datatype publish_result = Published | TransientExternalError | PermanentExternalError

text \<open>Modelled from the spec: the record \<open>ScheduledPost\<close> of section 3.\<close>

record scheduled_post =
  post_id :: string
  post_platform :: string
  content_ref :: content_item
  post_time :: datetime
  status :: post_status
  attempt_count :: nat

text \<open>
  Modelled from the spec: the state of one dispatch: the post, the number of calls made to
  \<^verbatim>\<open>PlatformPublisher.publish\<close>, and the statuses the post has gone through.
\<close>

record dispatch =
  post :: scheduled_post
  publisher_calls :: nat
  history :: "post_status list"

text \<open>
  Modelled from the spec: the publish step with its retries. \<open>publisher n\<close> is the answer
  of the \<open>n\<close>-th call of \<^verbatim>\<open>PlatformPublisher.publish\<close>. In dry-run mode the call is
  simulated and succeeds. A transient error increments \<open>attempt_count\<close> and sets
  \<open>retrying\<close>, and the publish is retried until \<open>attempt_count\<close> reaches \<open>max_retries\<close>,
  when the post is \<open>failed\<close>; a permanent error fails at once; success is \<open>dispatched\<close>.
\<close>

function publish_with_retry ::
  "bool \<Rightarrow> nat \<Rightarrow> (nat \<Rightarrow> publish_result) \<Rightarrow> dispatch \<Rightarrow> dispatch" where
  "publish_with_retry dry_run max_retries publisher d =
     (let result = (if dry_run then Published else publisher (publisher_calls d));
          calls = (if dry_run then publisher_calls d else publisher_calls d + 1)
      in case result of
           Published \<Rightarrow>
             d\<lparr>post := (post d)\<lparr>status := Dispatched\<rparr>, publisher_calls := calls,
               history := history d @ [Dispatched]\<rparr>
         | PermanentExternalError \<Rightarrow>
             d\<lparr>post := (post d)\<lparr>status := Failed\<rparr>, publisher_calls := calls,
               history := history d @ [Failed]\<rparr>
         | TransientExternalError \<Rightarrow>
             (if max_retries \<le> attempt_count (post d) + 1
              then d\<lparr>post := (post d)\<lparr>attempt_count := attempt_count (post d) + 1,
                                      status := Failed\<rparr>,
                     publisher_calls := calls, history := history d @ [Retrying, Failed]\<rparr>
              else publish_with_retry dry_run max_retries publisher
                     (d\<lparr>post := (post d)\<lparr>attempt_count := attempt_count (post d) + 1,
                                          status := Retrying\<rparr>,
                        publisher_calls := calls, history := history d @ [Retrying]\<rparr>)))"
  by pat_completeness auto
termination
  by (relation "measure (\<lambda>(dry_run, max_retries, publisher, d). max_retries - attempt_count (post d))")
     auto

text \<open>
  Modelled from the spec: \<^verbatim>\<open>schedule_post(platform, content, scheduled_time, post_id)\<close>
  creates the post with status \<open>pending\<close>, and the publish step runs when the time comes.
\<close>

definition dispatcher_schedule_post ::
  "bool \<Rightarrow> nat \<Rightarrow> (nat \<Rightarrow> publish_result) \<Rightarrow> string \<Rightarrow> content_item \<Rightarrow> datetime \<Rightarrow> string
     \<Rightarrow> dispatch" where
  "dispatcher_schedule_post dry_run max_retries publisher platform content t pid =
     publish_with_retry dry_run max_retries publisher
       \<lparr>post = \<lparr>post_id = pid, post_platform = platform, content_ref = content, post_time = t,
                 status = Pending, attempt_count = 0\<rparr>,
        publisher_calls = 0, history = [Pending]\<rparr>"

section \<open>Properties of the datetime model\<close>

lemma int_div_less:
  fixes a b c :: int
  assumes "0 < c" "a < b * c"
  shows "a div c < b"
proof (rule ccontr)
  assume "\<not> a div c < b"
  then have "b \<le> a div c" by simp
  with \<open>0 < c\<close> have "b * c \<le> (a div c) * c" by (simp add: mult_right_mono)
  moreover have "(a div c) * c + a mod c = a" by simp
  moreover have "0 \<le> a mod c" using \<open>0 < c\<close> by simp
  ultimately show False using \<open>a < b * c\<close> by linarith
qed

lemma to_us_of_us: "to_us (of_us n) = n"
proof -
  have a: "n mod US_DAY = (n mod US_DAY) div US_HOUR * US_HOUR + n mod US_HOUR"
    using div_mult_mod_eq [of "n mod US_DAY" US_HOUR] mod_mod_cancel [of US_HOUR US_DAY n]
    by simp
  have b: "n mod US_HOUR = (n mod US_HOUR) div US_MINUTE * US_MINUTE + n mod US_MINUTE"
    using div_mult_mod_eq [of "n mod US_HOUR" US_MINUTE] mod_mod_cancel [of US_MINUTE US_HOUR n]
    by simp
  have c: "n mod US_MINUTE = (n mod US_MINUTE) div 1000000 * 1000000 + n mod 1000000"
    using div_mult_mod_eq [of "n mod US_MINUTE" 1000000] mod_mod_cancel [of 1000000 US_MINUTE n]
    by simp
  have d: "n = n div US_DAY * US_DAY + n mod US_DAY"
    by simp
  have "to_us (of_us n) = n div US_DAY * US_DAY + (n mod US_DAY) div US_HOUR * US_HOUR
      + (n mod US_HOUR) div US_MINUTE * US_MINUTE + (n mod US_MINUTE) div 1000000 * 1000000
      + n mod 1000000"
    by (simp only: to_us_def of_us_def datetime.simps)
  with a b c d show ?thesis by linarith
qed

lemma valid_of_us:
  assumes "0 < n div US_DAY" "n div US_DAY \<le> MAXORDINAL"
  shows "valid_datetime (of_us n)"
proof -
  have o: "1 \<le> n div US_DAY"
    using assms(1) by (simp only: int_one_le_iff_zero_less)
  have h: "n mod US_DAY div US_HOUR < 24"
    by (rule int_div_less) simp_all
  have m: "n mod US_HOUR div US_MINUTE < 60"
    by (rule int_div_less) simp_all
  have s: "n mod US_MINUTE div 1000000 < 60"
    by (rule int_div_less) simp_all
  have h0: "0 \<le> n mod US_DAY div US_HOUR"
    by (simp add: pos_imp_zdiv_nonneg_iff)
  have m0: "0 \<le> n mod US_HOUR div US_MINUTE"
    by (simp add: pos_imp_zdiv_nonneg_iff)
  have s0: "0 \<le> n mod US_MINUTE div 1000000"
    by (simp add: pos_imp_zdiv_nonneg_iff)
  have u: "0 \<le> n mod 1000000" "n mod 1000000 < 1000000"
    by simp_all
  show ?thesis
    unfolding valid_datetime_def of_us_def datetime.simps
    using o assms(2) h m s h0 m0 s0 u by blast
qed

lemma to_us_bounds:
  assumes "valid_datetime t"
  shows "ordinal t * US_DAY \<le> to_us t" and "to_us t < ordinal t * US_DAY + US_DAY"
  using assms unfolding valid_datetime_def to_us_def by linarith+

lemma to_us_div:
  assumes "valid_datetime t"
  shows "to_us t div US_DAY = ordinal t"
proof (rule int_div_pos_eq)
  show "to_us t = US_DAY * ordinal t + (to_us t - ordinal t * US_DAY)" by simp
  show "0 \<le> to_us t - ordinal t * US_DAY" using to_us_bounds(1) [OF assms] by simp
  show "to_us t - ordinal t * US_DAY < US_DAY" using to_us_bounds(2) [OF assms] by simp
qed

lemma to_us_shift_div:
  assumes "valid_datetime t"
  shows "(to_us t + k * US_DAY) div US_DAY = ordinal t + k"
proof (rule int_div_pos_eq)
  show "to_us t + k * US_DAY = US_DAY * (ordinal t + k) + (to_us t - ordinal t * US_DAY)"
    by (simp add: algebra_simps)
  show "0 \<le> to_us t - ordinal t * US_DAY" using to_us_bounds(1) [OF assms] by simp
  show "to_us t - ordinal t * US_DAY < US_DAY" using to_us_bounds(2) [OF assms] by simp
qed

lemma dt_add_Inr:
  assumes "dt_add t d = Inr r"
  shows "to_us r = to_us t + d" and "valid_datetime r"
proof -
  let ?n = "to_us t + d"
  from assms have c: "0 < ?n div US_DAY \<and> ?n div US_DAY \<le> MAXORDINAL" and r: "r = of_us ?n"
    unfolding dt_add_def Let_def by (simp_all only: split: if_splits) auto
  show "to_us r = to_us t + d" by (simp only: r to_us_of_us)
  show "valid_datetime r" unfolding r using c by (intro valid_of_us) blast+
qed

lemma dt_add_returns:
  assumes "US_DAY \<le> to_us t + d" "to_us t + d < 3652060 * US_DAY"
  shows "\<exists>r. dt_add t d = Inr r"
proof -
  let ?n = "to_us t + d"
  have "0 < ?n div US_DAY" using assms(1) by (simp only: pos_imp_zdiv_pos_iff) 
  moreover have "?n div US_DAY < 3652060" using assms(2) by (intro int_div_less) simp_all
  ultimately show ?thesis unfolding dt_add_def Let_def by simp
qed

lemma replace_hm_Inr:
  assumes "replace_hm t h m = Inr r"
  shows "r = t\<lparr>hour := h, minute := m, second := 0, microsecond := 0\<rparr>"
    and "0 \<le> h" "h < 24" "0 \<le> m" "m < 60"
  using assms unfolding replace_hm_def by (simp_all split: if_splits)

lemma day_times_head:
  assumes "day_times platform_times from_time k = (h, m) # rest"
  shows "\<exists>d. (d, h, m) \<in> set platform_times"
    and "k = 0 \<Longrightarrow> h > hour from_time \<or> (h = hour from_time \<and> m > minute from_time)"
proof -
  let ?ts = "sort [(h, m). (d, h, m) \<leftarrow> platform_times, d = (weekday from_time + k) mod 7]"
  let ?P = "\<lambda>(h, m). h > hour from_time \<or> (h = hour from_time \<and> m > minute from_time)"
  have mem: "(h, m) \<in> set (day_times platform_times from_time k)"
    by (simp add: assms)
  have sub: "set (day_times platform_times from_time k) \<subseteq> set ?ts"
    unfolding day_times_def Let_def by auto
  from mem sub have "(h, m) \<in> set ?ts" by blast
  then show "\<exists>d. (d, h, m) \<in> set platform_times" by auto
  show "h > hour from_time \<or> (h = hour from_time \<and> m > minute from_time)" if "k = 0"
  proof -
    from mem that have "(h, m) \<in> set (filter ?P ?ts)"
      unfolding day_times_def Let_def by simp
    then show ?thesis by simp
  qed
qed

text \<open>What a successful slot pick looks like on the time line.\<close>

lemma slot_pick_us:
  assumes v: "valid_datetime from_time" and k: "0 \<le> k"
    and a: "dt_add from_time (td_days k) = Inr d"
    and r: "replace_hm d h m = Inr r"
  shows "valid_datetime r" and "ordinal r = ordinal from_time + k"
    and "to_us r = ordinal from_time * US_DAY + k * US_DAY + h * US_HOUR + m * US_MINUTE"
    and "second r = 0" and "microsecond r = 0"
proof -
  note d = dt_add_Inr [OF a]
  have "ordinal d = to_us d div US_DAY" using to_us_div [OF d(2)] by simp
  also have "\<dots> = ordinal from_time + k"
    unfolding d(1) td_days_def by (rule to_us_shift_div [OF v])
  finally have od: "ordinal d = ordinal from_time + k" .
  note rr = replace_hm_Inr [OF r]
  show "ordinal r = ordinal from_time + k" by (simp add: rr(1) od)
  show "second r = 0" "microsecond r = 0" by (simp_all add: rr(1))
  show "valid_datetime r"
    using d(2) rr(2-5) unfolding valid_datetime_def rr(1) by simp
  show "to_us r = ordinal from_time * US_DAY + k * US_DAY + h * US_HOUR + m * US_MINUTE"
    unfolding to_us_def rr(1) by (simp add: od distrib_right)
qed

lemma fallback_us:
  assumes v: "valid_datetime from_time"
    and a: "dt_add from_time (td_days 1) = Inr d"
  shows "valid_datetime (replace_s d)" and "ordinal (replace_s d) = ordinal from_time + 1"
    and "to_us from_time < to_us (replace_s d)"
    and "second (replace_s d) = 0" and "microsecond (replace_s d) = 0"
proof -
  note d = dt_add_Inr [OF a]
  have "ordinal d = to_us d div US_DAY" using to_us_div [OF d(2)] by simp
  also have "\<dots> = ordinal from_time + 1"
    unfolding d(1) td_days_def using to_us_shift_div [OF v, of 1] by simp
  finally have od: "ordinal d = ordinal from_time + 1" .
  show "ordinal (replace_s d) = ordinal from_time + 1" by (simp add: replace_s_def od)
  show "second (replace_s d) = 0" "microsecond (replace_s d) = 0"
    by (simp_all add: replace_s_def)
  show "valid_datetime (replace_s d)"
    using d(2) unfolding valid_datetime_def replace_s_def by simp
  have "to_us (replace_s d) = to_us d - second d * 1000000 - microsecond d"
    unfolding to_us_def replace_s_def by simp
  moreover have "second d * 1000000 + microsecond d < US_DAY"
    using d(2) unfolding valid_datetime_def by linarith
  moreover have "to_us d = to_us from_time + US_DAY"
    using d(1) unfolding td_days_def by simp
  ultimately show "to_us from_time < to_us (replace_s d)" by linarith
qed

lemma scan_days_Inr:
  assumes "valid_datetime from_time" and "\<forall>k\<in>set offs. 0 \<le> k"
    and "scan_days platform_times from_time offs = Inr r"
  shows "valid_datetime r \<and> to_us from_time < to_us r \<and> second r = 0 \<and> microsecond r = 0"
  using assms(2,3)
proof (induction offs)
  case Nil
  then obtain d where a: "dt_add from_time (td_days 1) = Inr d" and r: "r = replace_s d"
    by (auto split: sum.splits)
  show ?case unfolding r using fallback_us [OF assms(1) a] by blast
next
  case (Cons k offs)
  show ?case
  proof (cases "day_times platform_times from_time k")
    case Nil
    with Cons show ?thesis by simp
  next
    case (Cons hm rest)
    obtain h m where hm: "hm = (h, m)" by (cases hm)
    note dt = Cons [unfolded hm]
    from Cons.prems(2) dt obtain d where a: "dt_add from_time (td_days k) = Inr d"
      and rr: "replace_hm d h m = Inr r"
      by (auto split: sum.splits)
    have k0: "0 \<le> k" using Cons.prems(1) by simp
    note p = slot_pick_us [OF assms(1) k0 a rr]
    note b = replace_hm_Inr(2-5) [OF rr]
    note v = assms(1) [unfolded valid_datetime_def]
    have "to_us from_time < to_us r"
    proof (cases "k = 0")
      case True
      from day_times_head(2) [OF dt True]
      have "h > hour from_time \<or> (h = hour from_time \<and> m > minute from_time)" .
      moreover have "to_us r = ordinal from_time * US_DAY + h * US_HOUR + m * US_MINUTE"
        using p(3) True by simp
      moreover have "to_us from_time = ordinal from_time * US_DAY + hour from_time * US_HOUR
          + minute from_time * US_MINUTE + second from_time * 1000000 + microsecond from_time"
        by (simp only: to_us_def)
      ultimately show ?thesis
        using v b by linarith
    next
      case False
      with k0 have "1 \<le> k" by simp
      then show ?thesis
        unfolding p(3) using to_us_bounds(2) [OF assms(1)] b by linarith
    qed
    with p show ?thesis by simp
  qed
qed


lemma dt_add_days_returns:
  assumes v: "valid_datetime t" and "0 \<le> k" "ordinal t + k \<le> MAXORDINAL"
  shows "\<exists>d. dt_add t (td_days k) = Inr d"
proof -
  have "(to_us t + k * US_DAY) div US_DAY = ordinal t + k"
    by (rule to_us_shift_div [OF v])
  moreover have "1 \<le> ordinal t" using v unfolding valid_datetime_def by simp
  ultimately show ?thesis
    unfolding dt_add_def td_days_def Let_def using assms(2,3) by simp
qed

lemma scan_days_returns:
  assumes v: "valid_datetime from_time" and w: "wf_slots platform_times"
    and "\<forall>k\<in>set offs. 0 \<le> k \<and> ordinal from_time + k \<le> MAXORDINAL"
    and n: "ordinal from_time + 1 \<le> MAXORDINAL"
  shows "\<exists>r. scan_days platform_times from_time offs = Inr r"
  using assms(3)
proof (induction offs)
  case Nil
  from dt_add_days_returns [OF v _ n] obtain d where "dt_add from_time (td_days 1) = Inr d"
    by auto
  then show ?case by simp
next
  case (Cons k offs)
  show ?case
  proof (cases "day_times platform_times from_time k")
    case Nil
    with Cons show ?thesis by simp
  next
    case (Cons hm rest)
    obtain h m where hm: "hm = (h, m)" by (cases hm)
    note dt = Cons [unfolded hm]
    from day_times_head(1) [OF dt] w have "0 \<le> h \<and> h < 24 \<and> 0 \<le> m \<and> m < 60"
      unfolding wf_slots_def by auto
    then obtain r where rr: "\<And>d. replace_hm d h m = Inr (r d)"
      unfolding replace_hm_def by simp
    from Cons.prems have "0 \<le> k" "ordinal from_time + k \<le> MAXORDINAL" by simp_all
    from dt_add_days_returns [OF v this] obtain d where "dt_add from_time (td_days k) = Inr d"
      by auto
    then show ?thesis using dt rr by simp
  qed
qed

lemma scan_days_ordinal:
  assumes v: "valid_datetime from_time" and "\<forall>k\<in>set offs. 0 \<le> k \<and> k \<le> K" and "1 \<le> K"
    and "scan_days platform_times from_time offs = Inr r"
  shows "ordinal r \<le> ordinal from_time + K"
  using assms(2,4)
proof (induction offs)
  case Nil
  then obtain d where a: "dt_add from_time (td_days 1) = Inr d" and r: "r = replace_s d"
    by (auto split: sum.splits)
  show ?case unfolding r using fallback_us(2) [OF v a] assms(3) by simp
next
  case (Cons k offs)
  show ?case
  proof (cases "day_times platform_times from_time k")
    case Nil
    with Cons show ?thesis by simp
  next
    case (Cons hm rest)
    obtain h m where hm: "hm = (h, m)" by (cases hm)
    note dt = Cons [unfolded hm]
    from Cons.prems(2) dt obtain d where a: "dt_add from_time (td_days k) = Inr d"
      and rr: "replace_hm d h m = Inr r"
      by (auto split: sum.splits)
    have k0: "0 \<le> k" "k \<le> K" using Cons.prems(1) by simp_all
    show ?thesis using slot_pick_us(2) [OF v k0(1) a rr] k0(2) by simp
  qed
qed

lemma ascii_lower_char_idem: "ascii_lower_char (ascii_lower_char c) = ascii_lower_char c"
proof (cases "65 \<le> (of_char c :: nat) \<and> (of_char c :: nat) \<le> 90")
  case True
  then have "(of_char (char_of (of_char c + 32 :: nat)) :: nat) = of_char c + 32"
    by simp
  with True show ?thesis unfolding ascii_lower_char_def Let_def by simp
next
  case False
  then have "ascii_lower_char c = c" unfolding ascii_lower_char_def Let_def by auto
  then show ?thesis by simp
qed

lemma ascii_lower_idem: "ascii_lower (ascii_lower s) = ascii_lower s"
  unfolding ascii_lower_def by (simp add: ascii_lower_char_idem)

lemma of_us_day_part:
  assumes "0 \<le> x" "x < US_DAY"
  shows "of_us (d * US_DAY + x) =
     \<lparr> ordinal = d, hour = x div US_HOUR, minute = (x mod US_HOUR) div US_MINUTE,
       second = (x mod US_MINUTE) div 1000000, microsecond = x mod 1000000 \<rparr>"
proof -
  let ?n = "d * US_DAY + x"
  have dv: "?n div US_DAY = d"
    by (rule int_div_pos_eq [where r = x]) (use assms in simp_all)
  have md: "?n mod US_DAY = x"
    by (rule int_mod_pos_eq [where q = d]) (use assms in simp_all)
  have mh: "?n mod US_HOUR = x mod US_HOUR"
    using mod_mod_cancel [of US_HOUR US_DAY ?n] md by simp
  have mm: "?n mod US_MINUTE = x mod US_MINUTE"
    using mod_mod_cancel [of US_MINUTE US_DAY ?n] md by simp
  have ms: "?n mod 1000000 = x mod 1000000"
    using mod_mod_cancel [of 1000000 US_DAY ?n] md by simp
  show ?thesis unfolding of_us_def dv md mh mm ms ..
qed

section \<open>get_optimal_time\<close>

lemma wf_optimal_times: "wf_table optimal_times"
  unfolding wf_table_def optimal_times_def wf_slots_def
    twitter_times_def instagram_times_def linkedin_times_def
  by (simp add: dom_def)

lemma get_optimal_time_Inr:
  assumes "valid_datetime from_time"
    and "get_optimal_time lower table platform from_time max_days_ahead = Inr r"
  shows "valid_datetime r" and "to_us from_time < to_us r"
    and "second r = 0" and "microsecond r = 0"
proof -
  from assms(2) obtain pts where
    "scan_days pts from_time [0..max_days_ahead - 1] = Inr r"
    unfolding get_optimal_time_def Let_def by (auto split: option.splits)
  from scan_days_Inr [OF assms(1) _ this]
  show "valid_datetime r" and "to_us from_time < to_us r"
    and "second r = 0" and "microsecond r = 0" by simp_all
qed

lemma get_optimal_time_returns:
  assumes v: "valid_datetime from_time" and w: "wf_table table"
    and d: "1 \<le> max_days_ahead" "ordinal from_time + max_days_ahead \<le> MAXORDINAL"
  shows "\<exists>r. get_optimal_time lower table platform from_time max_days_ahead = Inr r"
proof -
  define p where "p = (if lower platform \<notin> dom table then ''twitter'' else lower platform)"
  from w have "p \<in> dom table" unfolding wf_table_def p_def by simp
  then obtain pts where pts: "table p = Some pts" by auto
  with w have ws: "wf_slots pts" unfolding wf_table_def by force
  have "\<exists>r. scan_days pts from_time [0..max_days_ahead - 1] = Inr r"
    by (rule scan_days_returns [OF v ws]) (use d in auto)
  then show ?thesis
    unfolding get_optimal_time_def Let_def p_def [symmetric] by (simp add: pts)
qed

lemma get_optimal_time_ordinal:
  assumes v: "valid_datetime from_time" and "2 \<le> max_days_ahead"
    and "get_optimal_time lower table platform from_time max_days_ahead = Inr r"
  shows "ordinal r \<le> ordinal from_time + max_days_ahead - 1"
proof -
  from assms(3) obtain pts where
    "scan_days pts from_time [0..max_days_ahead - 1] = Inr r"
    unfolding get_optimal_time_def Let_def by (auto split: option.splits)
  from scan_days_ordinal [OF v _ _ this, of "max_days_ahead - 1"] assms(2)
  show ?thesis by simp
qed

text \<open>With the default window of 7 days the result is less than 7 days away.\<close>

lemma get_optimal_time_within_week:
  assumes v: "valid_datetime from_time"
    and g: "get_optimal_time lower table platform from_time 7 = Inr r"
  shows "to_us r < to_us from_time + 7 * US_DAY"
proof -
  have "ordinal r \<le> ordinal from_time + 6"
    using get_optimal_time_ordinal [OF v _ g] by simp
  moreover have "to_us r < ordinal r * US_DAY + US_DAY"
    by (rule to_us_bounds(2) [OF get_optimal_time_Inr(1) [OF v g]])
  moreover have "ordinal from_time * US_DAY \<le> to_us from_time"
    by (rule to_us_bounds(1) [OF v])
  ultimately show ?thesis by linarith
qed

text \<open>
  C1, amended. For every platform string, every \<open>from_time\<close> and every
  \<open>max_days_ahead \<ge> 1\<close>: a datetime returned by \<^verbatim>\<open>get_optimal_time\<close> on the
  installed slot table is strictly later than \<open>from_time\<close>, whether it comes from a
  slot or from the fallback; and the call returns whenever the date of \<open>from_time\<close>
  plus \<open>max_days_ahead\<close> days is not past 9999-12-31.
\<close>

theorem get_optimal_time_strictly_later:
  assumes "valid_datetime from_time" and "1 \<le> max_days_ahead"
  shows "(\<forall>r. get_optimal_time lower optimal_times platform from_time max_days_ahead = Inr r
              \<longrightarrow> dt_less from_time r)
       \<and> (ordinal from_time + max_days_ahead \<le> MAXORDINAL
              \<longrightarrow> (\<exists>r. get_optimal_time lower optimal_times platform from_time max_days_ahead = Inr r))"
  using get_optimal_time_Inr(2) [OF assms(1)]
    get_optimal_time_returns [OF assms(1) wf_optimal_times assms(2)]
  unfolding dt_less_def by blast

text \<open>
  C1 as stated fails at the end of the range of \<^verbatim>\<open>datetime\<close>: on Friday 9999-12-31
  at 23:00 the next twitter slot is on Saturday, and \<^verbatim>\<open>from_time + timedelta(days=1)\<close>
  raises \<^verbatim>\<open>OverflowError\<close>, so no datetime is returned.
\<close>

theorem get_optimal_time_overflow_counterexample:
  "get_optimal_time ascii_lower optimal_times ''twitter'' (mk_datetime 9999 12 31 23 0) 7 = Inl OverflowError"
  by code_simp

text \<open>The theorem at Monday 2024-01-01 10:00 for linkedin: the slot at 11:00.\<close>

theorem get_optimal_time_strictly_later_witness:
  "valid_datetime (mk_datetime 2024 1 1 10 0) \<and> (1::int) \<le> 7
   \<and> ordinal (mk_datetime 2024 1 1 10 0) + 7 \<le> MAXORDINAL
   \<and> get_optimal_time ascii_lower optimal_times ''linkedin'' (mk_datetime 2024 1 1 10 0) 7
       = Inr (mk_datetime 2024 1 1 11 0)
   \<and> dt_less (mk_datetime 2024 1 1 10 0) (mk_datetime 2024 1 1 11 0)"
proof -
  have v: "valid_datetime (mk_datetime 2024 1 1 10 0)" by code_simp
  have d: "(1::int) \<le> 7" by simp
  have o: "ordinal (mk_datetime 2024 1 1 10 0) + 7 \<le> MAXORDINAL" by code_simp
  have e: "get_optimal_time ascii_lower optimal_times ''linkedin'' (mk_datetime 2024 1 1 10 0) 7
       = Inr (mk_datetime 2024 1 1 11 0)" by code_simp
  from get_optimal_time_strictly_later [where lower = ascii_lower and platform = "''linkedin''", OF v d] e
  have "dt_less (mk_datetime 2024 1 1 10 0) (mk_datetime 2024 1 1 11 0)" by blast
  with v d o e show ?thesis by blast
qed

lemma of_us_shift_days:
  assumes v: "valid_datetime t"
  shows "of_us (to_us t + k * US_DAY) = t\<lparr>ordinal := ordinal t + k\<rparr>"
proof -
  note b = v [unfolded valid_datetime_def]
  define x where "x = hour t * US_HOUR + minute t * US_MINUTE + second t * 1000000 + microsecond t"
  have x0: "0 \<le> x" and x1: "x < US_DAY" using b unfolding x_def by linarith+
  have n: "to_us t + k * US_DAY = (ordinal t + k) * US_DAY + x"
    unfolding to_us_def x_def by (simp add: distrib_right)
  have h: "x div US_HOUR = hour t"
    by (rule int_div_pos_eq [where r = "minute t * US_MINUTE + second t * 1000000 + microsecond t"])
       (use b in \<open>simp_all add: x_def\<close>)
  have mh: "x mod US_HOUR = minute t * US_MINUTE + second t * 1000000 + microsecond t"
    by (rule int_mod_pos_eq [where q = "hour t"]) (use b in \<open>simp_all add: x_def\<close>)
  have m: "(x mod US_HOUR) div US_MINUTE = minute t"
    unfolding mh
    by (rule int_div_pos_eq [where r = "second t * 1000000 + microsecond t"]) (use b in simp_all)
  have mm: "x mod US_MINUTE = second t * 1000000 + microsecond t"
    by (rule int_mod_pos_eq [where q = "hour t * 60 + minute t"]) (use b in \<open>simp_all add: x_def\<close>)
  have s: "(x mod US_MINUTE) div 1000000 = second t"
    unfolding mm by (rule int_div_pos_eq [where r = "microsecond t"]) (use b in simp_all)
  have u: "x mod 1000000 = microsecond t"
    by (rule int_mod_pos_eq [where q = "hour t * 3600 + minute t * 60 + second t"])
       (use b in \<open>simp_all add: x_def\<close>)
  show ?thesis
    unfolding n of_us_day_part [OF x0 x1] h m s u by simp
qed

lemma dt_add_days:
  assumes v: "valid_datetime t" and "0 \<le> k" "ordinal t + k \<le> MAXORDINAL"
  shows "dt_add t (td_days k) = Inr (t\<lparr>ordinal := ordinal t + k\<rparr>)"
proof -
  have "(to_us t + k * US_DAY) div US_DAY = ordinal t + k"
    by (rule to_us_shift_div [OF v])
  moreover have "1 \<le> ordinal t" using v unfolding valid_datetime_def by simp
  ultimately show ?thesis
    unfolding dt_add_def td_days_def Let_def using assms(2,3)
    by (simp add: of_us_shift_days [OF v])
qed

lemma dom_optimal_times: "dom optimal_times = {''twitter'', ''instagram'', ''linkedin''}"
  unfolding optimal_times_def by auto

lemma ascii_lower_twitter: "ascii_lower ''twitter'' = ''twitter''"
  by code_simp

text \<open>
  C10. \<^verbatim>\<open>get_optimal_time\<close> reads the platform name through \<^verbatim>\<open>str.lower()\<close>. For
  every platform string: the result is the result for its lowercase form, and when the
  lowercase form is none of twitter, instagram, linkedin it is the result for twitter.
  The two hypotheses are what the statement uses of \<^verbatim>\<open>str.lower\<close>: lowering a lowered
  string changes nothing, and \<open>twitter\<close> is its own lowercase form.
\<close>

theorem get_optimal_time_platform_case:
  assumes "lower (lower platform) = lower platform" and "lower ''twitter'' = ''twitter''"
  shows "get_optimal_time lower optimal_times platform from_time max_days_ahead
     = get_optimal_time lower optimal_times (lower platform) from_time max_days_ahead
   \<and> (lower platform \<notin> {''twitter'', ''instagram'', ''linkedin''} \<longrightarrow>
        get_optimal_time lower optimal_times platform from_time max_days_ahead
          = get_optimal_time lower optimal_times ''twitter'' from_time max_days_ahead)"
  unfolding get_optimal_time_def Let_def assms dom_optimal_times
  by simp

text \<open>The theorem at \<open>LinkedIn\<close>, where the case of the letters decides between the
  slots of linkedin (11:00) and those of twitter (12:00), and at the unknown platform
  \<open>TikTok\<close>.\<close>

theorem get_optimal_time_platform_case_witness:
  "ascii_lower (ascii_lower ''LinkedIn'') = ascii_lower ''LinkedIn''
   \<and> ascii_lower (ascii_lower ''TikTok'') = ascii_lower ''TikTok''
   \<and> ascii_lower ''twitter'' = ''twitter''
   \<and> get_optimal_time ascii_lower optimal_times ''LinkedIn'' (mk_datetime 2024 1 1 10 0) 7
       = get_optimal_time ascii_lower optimal_times ''linkedin'' (mk_datetime 2024 1 1 10 0) 7
   \<and> get_optimal_time ascii_lower optimal_times ''linkedin'' (mk_datetime 2024 1 1 10 0) 7
       = Inr (mk_datetime 2024 1 1 11 0)
   \<and> get_optimal_time ascii_lower optimal_times ''twitter'' (mk_datetime 2024 1 1 10 0) 7
       = Inr (mk_datetime 2024 1 1 12 0)
   \<and> ascii_lower ''TikTok'' \<notin> {''twitter'', ''instagram'', ''linkedin''}
   \<and> get_optimal_time ascii_lower optimal_times ''TikTok'' (mk_datetime 2024 1 1 10 0) 7
       = get_optimal_time ascii_lower optimal_times ''twitter'' (mk_datetime 2024 1 1 10 0) 7"
proof -
  let ?T = "mk_datetime 2024 1 1 10 0"
  have i1: "ascii_lower (ascii_lower ''LinkedIn'') = ascii_lower ''LinkedIn''" by code_simp
  have i2: "ascii_lower (ascii_lower ''TikTok'') = ascii_lower ''TikTok''" by code_simp
  have tw: "ascii_lower ''twitter'' = ''twitter''" by code_simp
  have l1: "ascii_lower ''LinkedIn'' = ''linkedin''" by code_simp
  have l2: "ascii_lower ''TikTok'' = ''tiktok''" by code_simp
  have h: "ascii_lower ''TikTok'' \<notin> {''twitter'', ''instagram'', ''linkedin''}"
    unfolding l2 by simp
  have rl: "get_optimal_time ascii_lower optimal_times ''linkedin'' ?T 7
       = Inr (mk_datetime 2024 1 1 11 0)" by code_simp
  have rt: "get_optimal_time ascii_lower optimal_times ''twitter'' ?T 7
       = Inr (mk_datetime 2024 1 1 12 0)" by code_simp
  note t1 = get_optimal_time_platform_case [where lower = ascii_lower
      and platform = "''LinkedIn''" and from_time = ?T and max_days_ahead = 7, OF i1 tw]
  note t2 = get_optimal_time_platform_case [where lower = ascii_lower
      and platform = "''TikTok''" and from_time = ?T and max_days_ahead = 7, OF i2 tw]
  from t1 have a: "get_optimal_time ascii_lower optimal_times ''LinkedIn'' ?T 7
       = get_optimal_time ascii_lower optimal_times (ascii_lower ''LinkedIn'') ?T 7"
    by (rule conjunct1)
  from t2 [THEN conjunct2] h
  have b: "get_optimal_time ascii_lower optimal_times ''TikTok'' ?T 7
       = get_optimal_time ascii_lower optimal_times ''twitter'' ?T 7"
    by (rule mp)
  show ?thesis
    by (rule conjI [OF i1 conjI [OF i2 conjI [OF tw conjI [OF a [unfolded l1]
          conjI [OF rl conjI [OF rt conjI [OF h b]]]]]]])
qed

lemma range7: "[0..(7::int) - 1] = [0, 1, 2, 3, 4, 5, 6]"
  by code_simp

text \<open>
  C6, amended. With the single twitter slot (Monday, 9, 0) and \<open>from_time\<close> a Monday
  at 10:00, \<^verbatim>\<open>get_optimal_time\<close> with \<open>max_days_ahead = 7\<close> finds no slot on the day
  offsets 0 to 6 (the slot of the day itself is already past, and the following Monday is
  offset 7, outside \<^verbatim>\<open>range(7)\<close>) and returns the fallback: \<open>from_time\<close> plus one
  day cut to the minute, that is Tuesday 10:00, which is later than \<open>from_time\<close>.
\<close>

theorem monday_only_fallback:
  assumes v: "valid_datetime from_time"
    and w: "weekday from_time = 0" and h: "hour from_time = 10" and m: "minute from_time = 0"
    and o: "ordinal from_time + 1 \<le> MAXORDINAL"
  shows "get_optimal_time ascii_lower [''twitter'' \<mapsto> [(0, 9, 0)]] ''twitter'' from_time 7
           = Inr (from_time\<lparr>ordinal := ordinal from_time + 1, second := 0, microsecond := 0\<rparr>)
         \<and> dt_less from_time
              (from_time\<lparr>ordinal := ordinal from_time + 1, second := 0, microsecond := 0\<rparr>)"
proof -
  have none: "day_times [(0, 9, 0)] from_time 0 = []" "day_times [(0, 9, 0)] from_time 1 = []"
    "day_times [(0, 9, 0)] from_time 2 = []" "day_times [(0, 9, 0)] from_time 3 = []"
    "day_times [(0, 9, 0)] from_time 4 = []" "day_times [(0, 9, 0)] from_time 5 = []"
    "day_times [(0, 9, 0)] from_time 6 = []"
    unfolding day_times_def Let_def w h m by simp_all
  have a: "dt_add from_time (td_days 1) = Inr (from_time\<lparr>ordinal := ordinal from_time + 1\<rparr>)"
    by (rule dt_add_days [OF v _ o]) simp
  have s: "scan_days [(0, 9, 0)] from_time [0, 1, 2, 3, 4, 5, 6]
      = Inr (from_time\<lparr>ordinal := ordinal from_time + 1, second := 0, microsecond := 0\<rparr>)"
    by (simp add: none a replace_s_def)
  have g: "get_optimal_time ascii_lower [''twitter'' \<mapsto> [(0, 9, 0)]] ''twitter'' from_time 7
           = Inr (from_time\<lparr>ordinal := ordinal from_time + 1, second := 0, microsecond := 0\<rparr>)"
    unfolding get_optimal_time_def Let_def ascii_lower_twitter range7
    by (simp add: s del: scan_days.simps)
  from get_optimal_time_Inr(2) [OF v g] g show ?thesis
    unfolding dt_less_def by simp
qed

text \<open>
  C6 as stated fails: from Monday 2024-01-01 10:00 the result is Tuesday 2024-01-02 10:00,
  not the following Monday 2024-01-08 09:00.
\<close>

theorem monday_only_counterexample:
  "get_optimal_time ascii_lower [''twitter'' \<mapsto> [(0, 9, 0)]] ''twitter'' (mk_datetime 2024 1 1 10 0) 7
     = Inr (mk_datetime 2024 1 2 10 0)
   \<and> mk_datetime 2024 1 2 10 0 \<noteq> mk_datetime 2024 1 8 9 0
   \<and> weekday (mk_datetime 2024 1 1 10 0) = 0"
  by code_simp

text \<open>The theorem at Monday 2024-01-01 10:00.\<close>

theorem monday_only_fallback_witness:
  "valid_datetime (mk_datetime 2024 1 1 10 0)
   \<and> weekday (mk_datetime 2024 1 1 10 0) = 0
   \<and> hour (mk_datetime 2024 1 1 10 0) = 10
   \<and> minute (mk_datetime 2024 1 1 10 0) = 0
   \<and> ordinal (mk_datetime 2024 1 1 10 0) + 1 \<le> MAXORDINAL
   \<and> get_optimal_time ascii_lower [''twitter'' \<mapsto> [(0, 9, 0)]] ''twitter'' (mk_datetime 2024 1 1 10 0) 7
       = Inr (mk_datetime 2024 1 2 10 0)"
proof -
  have v: "valid_datetime (mk_datetime 2024 1 1 10 0)" by code_simp
  have w: "weekday (mk_datetime 2024 1 1 10 0) = 0" by code_simp
  have h: "hour (mk_datetime 2024 1 1 10 0) = 10" by code_simp
  have m: "minute (mk_datetime 2024 1 1 10 0) = 0" by code_simp
  have o: "ordinal (mk_datetime 2024 1 1 10 0) + 1 \<le> MAXORDINAL" by code_simp
  have e: "(mk_datetime 2024 1 1 10 0)\<lparr>ordinal := ordinal (mk_datetime 2024 1 1 10 0) + 1,
      second := 0, microsecond := 0\<rparr> = mk_datetime 2024 1 2 10 0"
    by code_simp
  from monday_only_fallback [OF v w h m o] e v w h m o show ?thesis by simp
qed

section \<open>get_bulk_schedule\<close>

lemma dt_add_same_day:
  assumes v: "valid_datetime t"
    and x: "x = hour t * US_HOUR + minute t * US_MINUTE + second t * 1000000 + microsecond t + delta"
    and x0: "0 \<le> x" and x1: "x < US_DAY"
  shows "dt_add t delta =
     Inr \<lparr> ordinal = ordinal t, hour = x div US_HOUR, minute = (x mod US_HOUR) div US_MINUTE,
           second = (x mod US_MINUTE) div 1000000, microsecond = x mod 1000000 \<rparr>"
proof -
  have n: "to_us t + delta = ordinal t * US_DAY + x"
    unfolding to_us_def x by simp
  have dv: "(ordinal t * US_DAY + x) div US_DAY = ordinal t"
    by (rule int_div_pos_eq [where r = x]) (use x0 x1 in simp_all)
  have "1 \<le> ordinal t" "ordinal t \<le> MAXORDINAL" using v unfolding valid_datetime_def by simp_all
  then show ?thesis
    unfolding dt_add_def Let_def n dv of_us_day_part [OF x0 x1] by simp
qed

lemma scan_days_pick:
  assumes "day_times platform_times from_time k = (h, m) # rest"
    and "dt_add from_time (td_days k) = Inr d"
  shows "scan_days platform_times from_time (k # ks) = replace_hm d h m"
  using assms by simp

lemma scan_days_skip:
  assumes "day_times platform_times from_time k = []"
  shows "scan_days platform_times from_time (k # ks) = scan_days platform_times from_time ks"
  using assms by simp

lemma mon_tue_lookup:
  "get_optimal_time ascii_lower mon_tue ''twitter'' t 7 = scan_days [(0, 9, 0), (1, 9, 0)] t [0, 1, 2, 3, 4, 5, 6]"
  unfolding get_optimal_time_def Let_def ascii_lower_twitter range7 by simp

lemma mon_tue_first:
  assumes v: "valid_datetime from_time"
    and w: "weekday from_time = 0" and h: "hour from_time = 8" and m: "minute from_time = 0"
  shows "get_optimal_time ascii_lower mon_tue ''twitter'' from_time 7
          = Inr \<lparr>ordinal = ordinal from_time, hour = 9, minute = 0, second = 0, microsecond = 0\<rparr>"
proof -
  have d: "day_times [(0, 9, 0), (1, 9, 0)] from_time 0 = [(9, 0)]"
    unfolding day_times_def Let_def w h m by simp
  have "1 \<le> ordinal from_time" "ordinal from_time \<le> MAXORDINAL"
    using v unfolding valid_datetime_def by simp_all
  then have a: "dt_add from_time (td_days 0) = Inr from_time"
    using dt_add_days [OF v, of 0] by simp
  show ?thesis
    unfolding mon_tue_lookup scan_days_pick [OF d a] replace_hm_def by simp
qed

lemma mon_tue_second:
  assumes w: "(d + 6) mod 7 = 0" and o: "1 \<le> d" "d + 1 \<le> MAXORDINAL"
  shows "get_optimal_time ascii_lower mon_tue ''twitter''
           \<lparr>ordinal = d, hour = 9, minute = 1, second = 0, microsecond = 0\<rparr> 7
          = Inr \<lparr>ordinal = d + 1, hour = 9, minute = 0, second = 0, microsecond = 0\<rparr>"
proof -
  let ?c = "\<lparr>ordinal = d, hour = 9, minute = 1, second = 0, microsecond = 0\<rparr>"
  have v: "valid_datetime ?c" unfolding valid_datetime_def using o by simp
  have wd: "weekday ?c = 0" unfolding weekday_def using w by simp
  have d0: "day_times [(0, 9, 0), (1, 9, 0)] ?c 0 = []"
    unfolding day_times_def Let_def wd by simp
  have d1: "day_times [(0, 9, 0), (1, 9, 0)] ?c 1 = [(9, 0)]"
    unfolding day_times_def Let_def wd by simp
  have a: "dt_add ?c (td_days 1) = Inr (?c\<lparr>ordinal := ordinal ?c + 1\<rparr>)"
    by (rule dt_add_days [OF v]) (use o in simp_all)
  show ?thesis
    unfolding mon_tue_lookup scan_days_skip [OF d0] scan_days_pick [OF d1 a] replace_hm_def
    by simp
qed

lemma mon_tue_third:
  assumes w: "(d + 6) mod 7 = 1" and o: "1 \<le> d" "d + 6 \<le> MAXORDINAL"
  shows "get_optimal_time ascii_lower mon_tue ''twitter''
           \<lparr>ordinal = d, hour = 9, minute = 1, second = 0, microsecond = 0\<rparr> 7
          = Inr \<lparr>ordinal = d + 6, hour = 9, minute = 0, second = 0, microsecond = 0\<rparr>"
proof -
  let ?c = "\<lparr>ordinal = d, hour = 9, minute = 1, second = 0, microsecond = 0\<rparr>"
  have v: "valid_datetime ?c" unfolding valid_datetime_def using o by simp
  have wd: "weekday ?c = 1" unfolding weekday_def using w by simp
  have d0: "day_times [(0, 9, 0), (1, 9, 0)] ?c 0 = []"
    and d1: "day_times [(0, 9, 0), (1, 9, 0)] ?c 1 = []"
    and d2: "day_times [(0, 9, 0), (1, 9, 0)] ?c 2 = []"
    and d3: "day_times [(0, 9, 0), (1, 9, 0)] ?c 3 = []"
    and d4: "day_times [(0, 9, 0), (1, 9, 0)] ?c 4 = []"
    and d5: "day_times [(0, 9, 0), (1, 9, 0)] ?c 5 = []"
    and d6: "day_times [(0, 9, 0), (1, 9, 0)] ?c 6 = [(9, 0)]"
    unfolding day_times_def Let_def wd by simp_all
  have a: "dt_add ?c (td_days 6) = Inr (?c\<lparr>ordinal := ordinal ?c + 6\<rparr>)"
    by (rule dt_add_days [OF v]) (use o in simp_all)
  show ?thesis
    unfolding mon_tue_lookup scan_days_skip [OF d0] scan_days_skip [OF d1]
      scan_days_skip [OF d2] scan_days_skip [OF d3] scan_days_skip [OF d4]
      scan_days_skip [OF d5] scan_days_pick [OF d6 a] replace_hm_def
    by simp
qed

lemma add_minute_at_nine:
  assumes o: "1 \<le> d" "d \<le> MAXORDINAL"
  shows "dt_add \<lparr>ordinal = d, hour = 9, minute = 0, second = 0, microsecond = 0\<rparr> (td_minutes 1)
          = Inr \<lparr>ordinal = d, hour = 9, minute = 1, second = 0, microsecond = 0\<rparr>"
proof -
  let ?t = "\<lparr>ordinal = d, hour = 9, minute = 0, second = 0, microsecond = 0\<rparr>"
  have v: "valid_datetime ?t" unfolding valid_datetime_def using o by simp
  show ?thesis
    using dt_add_same_day [OF v, of "9 * US_HOUR + US_MINUTE" "td_minutes 1"]
    by (simp add: td_minutes_def)
qed

text \<open>
  C7, amended. With twitter slots on Monday 9:00 and Tuesday 9:00 only,
  \<^verbatim>\<open>get_bulk_schedule("twitter", 3, from_time, 24)\<close> from a Monday at 08:00 returns
  Monday 09:00, Tuesday 09:00 and the following Monday 09:00. The third lookup starts on
  Tuesday at 09:01 and finds the Monday slot at day offset 6, inside the window of 7 days;
  it is six days after the second entry, so the 24-hour minimum gap is not forced.
\<close>

theorem mon_tue_bulk_schedule:
  assumes v: "valid_datetime from_time"
    and w: "weekday from_time = 0" and h: "hour from_time = 8" and m: "minute from_time = 0"
    and o: "ordinal from_time + 7 \<le> MAXORDINAL"
  shows "get_bulk_schedule ascii_lower mon_tue ''twitter'' 3 from_time 24 =
     Inr [\<lparr>ordinal = ordinal from_time, hour = 9, minute = 0, second = 0, microsecond = 0\<rparr>,
          \<lparr>ordinal = ordinal from_time + 1, hour = 9, minute = 0, second = 0, microsecond = 0\<rparr>,
          \<lparr>ordinal = ordinal from_time + 7, hour = 9, minute = 0, second = 0, microsecond = 0\<rparr>]"
proof -
  define d where "d = ordinal from_time"
  have d1: "1 \<le> d" using v unfolding valid_datetime_def d_def by simp
  have dm: "d + 7 \<le> MAXORDINAL" using o unfolding d_def .
  have w0: "(d + 6) mod 7 = 0" using w unfolding weekday_def d_def .
  then have w1: "(d + 1 + 6) mod 7 = 1" by presburger
  have g1: "get_optimal_time ascii_lower mon_tue ''twitter'' from_time 7
          = Inr \<lparr>ordinal = d, hour = 9, minute = 0, second = 0, microsecond = 0\<rparr>"
    unfolding d_def by (rule mon_tue_first [OF v w h m])
  have c1: "dt_add \<lparr>ordinal = d, hour = 9, minute = 0, second = 0, microsecond = 0\<rparr> (td_minutes 1)
          = Inr \<lparr>ordinal = d, hour = 9, minute = 1, second = 0, microsecond = 0\<rparr>"
    by (rule add_minute_at_nine) (use d1 dm in simp_all)
  have g2: "get_optimal_time ascii_lower mon_tue ''twitter''
           \<lparr>ordinal = d, hour = 9, minute = 1, second = 0, microsecond = 0\<rparr> 7
          = Inr \<lparr>ordinal = d + 1, hour = 9, minute = 0, second = 0, microsecond = 0\<rparr>"
    by (rule mon_tue_second [OF w0]) (use d1 dm in simp_all)
  have c2: "dt_add \<lparr>ordinal = d + 1, hour = 9, minute = 0, second = 0, microsecond = 0\<rparr> (td_minutes 1)
          = Inr \<lparr>ordinal = d + 1, hour = 9, minute = 1, second = 0, microsecond = 0\<rparr>"
    by (rule add_minute_at_nine) (use d1 dm in simp_all)
  have g3: "get_optimal_time ascii_lower mon_tue ''twitter''
           \<lparr>ordinal = d + 1, hour = 9, minute = 1, second = 0, microsecond = 0\<rparr> 7
          = Inr \<lparr>ordinal = d + 7, hour = 9, minute = 0, second = 0, microsecond = 0\<rparr>"
    using mon_tue_third [OF w1] d1 dm by simp
  have c3: "dt_add \<lparr>ordinal = d + 7, hour = 9, minute = 0, second = 0, microsecond = 0\<rparr> (td_minutes 1)
          = Inr \<lparr>ordinal = d + 7, hour = 9, minute = 1, second = 0, microsecond = 0\<rparr>"
    by (rule add_minute_at_nine) (use d1 dm in simp_all)
  have n3: "nat 3 = Suc (Suc (Suc 0))" by simp
  show ?thesis
    unfolding get_bulk_schedule_def n3 d_def [symmetric]
    by (simp add: g1 c1 g2 c2 g3 c3 total_seconds_less_def dt_sub_def to_us_def)
qed

text \<open>
  C7 as stated fails: from Monday 2024-01-01 08:00 the third entry is Monday 2024-01-08
  09:00, not Wednesday 2024-01-03 09:00.
\<close>

theorem mon_tue_bulk_schedule_counterexample:
  "get_bulk_schedule ascii_lower mon_tue ''twitter'' 3 (mk_datetime 2024 1 1 8 0) 24
     = Inr [mk_datetime 2024 1 1 9 0, mk_datetime 2024 1 2 9 0, mk_datetime 2024 1 8 9 0]
   \<and> mk_datetime 2024 1 8 9 0 \<noteq> mk_datetime 2024 1 3 9 0
   \<and> weekday (mk_datetime 2024 1 1 8 0) = 0"
  by code_simp

text \<open>The theorem at Monday 2024-01-01 08:00.\<close>

theorem mon_tue_bulk_schedule_witness:
  "valid_datetime (mk_datetime 2024 1 1 8 0)
   \<and> weekday (mk_datetime 2024 1 1 8 0) = 0
   \<and> hour (mk_datetime 2024 1 1 8 0) = 8
   \<and> minute (mk_datetime 2024 1 1 8 0) = 0
   \<and> ordinal (mk_datetime 2024 1 1 8 0) + 7 \<le> MAXORDINAL
   \<and> get_bulk_schedule ascii_lower mon_tue ''twitter'' 3 (mk_datetime 2024 1 1 8 0) 24
     = Inr [\<lparr>ordinal = 738886, hour = 9, minute = 0, second = 0, microsecond = 0\<rparr>,
            \<lparr>ordinal = 738887, hour = 9, minute = 0, second = 0, microsecond = 0\<rparr>,
            \<lparr>ordinal = 738893, hour = 9, minute = 0, second = 0, microsecond = 0\<rparr>]"
proof -
  have v: "valid_datetime (mk_datetime 2024 1 1 8 0)" by code_simp
  have w: "weekday (mk_datetime 2024 1 1 8 0) = 0" by code_simp
  have h: "hour (mk_datetime 2024 1 1 8 0) = 8" by code_simp
  have m: "minute (mk_datetime 2024 1 1 8 0) = 0" by code_simp
  have o: "ordinal (mk_datetime 2024 1 1 8 0) + 7 \<le> MAXORDINAL" by code_simp
  have e: "ordinal (mk_datetime 2024 1 1 8 0) = 738886" by code_simp
  from mon_tue_bulk_schedule [OF v w h m o] v w h m o show ?thesis
    unfolding e by simp
qed

lemma successively_nth:
  assumes "successively P xs" and "Suc i < length xs"
  shows "P (xs ! i) (xs ! Suc i)"
  using assms
proof (induction P xs arbitrary: i rule: successively.induct)
  case (3 P x y xs)
  then show ?case by (cases i) simp_all
qed simp_all

lemma bulk_loop_Inr:
  assumes g: "0 \<le> G"
    and "valid_datetime current"
    and "schedule \<noteq> [] \<longrightarrow> to_us (last schedule) < to_us current"
    and "successively (spaced G) schedule"
    and "bulk_loop lower table platform G n schedule current = Inr s"
  shows "length s = length schedule + n \<and> successively (spaced G) s"
  using assms(2-)
proof (induction n arbitrary: schedule current)
  case 0
  then show ?case by simp
next
  case (Suc n)
  from Suc.prems(4) obtain nt0 nt cur' where
    g0: "get_optimal_time lower table platform current 7 = Inr nt0"
    and nt: "(if schedule \<noteq> [] \<and> total_seconds_less (dt_sub nt0 (last schedule)) (G * 3600)
              then dt_add (last schedule) (td_hours G) else Inr nt0) = Inr nt"
    and c: "dt_add nt (td_minutes 1) = Inr cur'"
    and r: "bulk_loop lower table platform G n (schedule @ [nt]) cur' = Inr s"
    by (auto split: sum.splits)
  note o = get_optimal_time_Inr [OF Suc.prems(1) g0]
  have sp: "schedule \<noteq> [] \<longrightarrow> spaced G (last schedule) nt"
  proof
    assume ne: "schedule \<noteq> []"
    with Suc.prems(2) have lt: "to_us (last schedule) < to_us current" by simp
    show "spaced G (last schedule) nt"
    proof (cases "total_seconds_less (dt_sub nt0 (last schedule)) (G * 3600)")
      case True
      with nt ne have "dt_add (last schedule) (td_hours G) = Inr nt" by simp
      from dt_add_Inr(1) [OF this] have "to_us nt = to_us (last schedule) + G * US_HOUR"
        by (simp add: td_hours_def)
      with g show ?thesis unfolding spaced_def dt_le_def dt_sub_def td_hours_def by simp
    next
      case False
      with nt have e: "nt = nt0" by simp
      from False have "G * US_HOUR \<le> to_us nt0 - to_us (last schedule)"
        unfolding total_seconds_less_def dt_sub_def by simp
      with lt o(2) show ?thesis
        unfolding e spaced_def dt_le_def dt_sub_def td_hours_def by simp
    qed
  qed
  have v': "valid_datetime cur'" and lt': "to_us nt < to_us cur'"
    using dt_add_Inr [OF c] by (simp_all add: td_minutes_def)
  have "successively (spaced G) (schedule @ [nt])"
    using Suc.prems(3) sp by (cases "schedule = []") (simp_all add: successively_append_iff)
  from Suc.IH [OF v' _ this r] lt' show ?case by simp
qed

lemma bulk_loop_returns:
  assumes w: "wf_table table" and g: "0 \<le> G"
    and "valid_datetime current"
    and "schedule \<noteq> [] \<longrightarrow> to_us current = to_us (last schedule) + US_MINUTE"
    and "to_us current + int n * (max (7 * US_DAY) (td_hours G) + US_MINUTE) < 3652060 * US_DAY"
  shows "\<exists>s. bulk_loop lower table platform G n schedule current = Inr s"
  using assms(3-)
proof (induction n arbitrary: schedule current)
  case 0
  then show ?case by simp
next
  case (Suc n)
  define B where "B = max (7 * US_DAY) (td_hours G) + US_MINUTE"
  have B7: "7 * US_DAY + US_MINUTE \<le> B" and BG: "G * US_HOUR + US_MINUTE \<le> B"
    unfolding B_def td_hours_def by simp_all
  have nB: "0 \<le> int n * B" using B7 by simp
  have bound: "to_us current + B + int n * B < 3652060 * US_DAY"
    using Suc.prems(3) unfolding B_def [symmetric] by (simp add: distrib_right)
  note v = Suc.prems(1)
  note tb = to_us_bounds [OF v]
  have "ordinal current + 7 \<le> MAXORDINAL" using tb(1) bound B7 nB by linarith
  from get_optimal_time_returns [OF v w _ this] obtain nt0 where
    g0: "get_optimal_time lower table platform current 7 = Inr nt0" by auto
  note o = get_optimal_time_Inr [OF v g0]
  note wk = get_optimal_time_within_week [OF v g0]
  have lo0: "US_DAY \<le> to_us nt0"
    using to_us_bounds(1) [OF o(1)] o(1) unfolding valid_datetime_def by linarith
  have "\<exists>nt. (if schedule \<noteq> [] \<and> total_seconds_less (dt_sub nt0 (last schedule)) (G * 3600)
              then dt_add (last schedule) (td_hours G) else Inr nt0) = Inr nt
           \<and> US_DAY \<le> to_us nt \<and> to_us nt + US_MINUTE \<le> to_us current + B
           \<and> valid_datetime nt"
  proof (cases "schedule \<noteq> [] \<and> total_seconds_less (dt_sub nt0 (last schedule)) (G * 3600)")
    case True
    then have rel: "to_us current = to_us (last schedule) + US_MINUTE"
      and close: "to_us nt0 - to_us (last schedule) < G * US_HOUR"
      using Suc.prems(2) unfolding total_seconds_less_def dt_sub_def by simp_all
    have "US_DAY \<le> to_us (last schedule) + td_hours G"
      using lo0 close unfolding td_hours_def by linarith
    moreover have "to_us (last schedule) + td_hours G < 3652060 * US_DAY"
      using rel bound BG nB unfolding td_hours_def by linarith
    ultimately obtain nt where a: "dt_add (last schedule) (td_hours G) = Inr nt"
      using dt_add_returns by blast
    note d = dt_add_Inr [OF a]
    have "US_DAY \<le> to_us nt" using d(1) lo0 close unfolding td_hours_def by linarith
    moreover have "to_us nt + US_MINUTE \<le> to_us current + B"
      using d(1) rel BG unfolding td_hours_def by linarith
    ultimately show ?thesis using True a d(2) by auto
  next
    case False
    have "to_us nt0 + US_MINUTE \<le> to_us current + B" using wk B7 by linarith
    with False lo0 o(1) show ?thesis by auto
  qed
  then obtain nt where
    nt: "(if schedule \<noteq> [] \<and> total_seconds_less (dt_sub nt0 (last schedule)) (G * 3600)
              then dt_add (last schedule) (td_hours G) else Inr nt0) = Inr nt"
    and lo: "US_DAY \<le> to_us nt" and hi: "to_us nt + US_MINUTE \<le> to_us current + B"
    and vn: "valid_datetime nt" by blast
  have "US_DAY \<le> to_us nt + td_minutes 1" using lo unfolding td_minutes_def by simp
  moreover have "to_us nt + td_minutes 1 < 3652060 * US_DAY"
    using hi bound nB unfolding td_minutes_def by linarith
  ultimately obtain cur' where c: "dt_add nt (td_minutes 1) = Inr cur'"
    using dt_add_returns by blast
  note d = dt_add_Inr [OF c]
  have rel': "schedule @ [nt] \<noteq> [] \<longrightarrow> to_us cur' = to_us (last (schedule @ [nt])) + US_MINUTE"
    using d(1) unfolding td_minutes_def by simp
  have "to_us cur' + int n * B < 3652060 * US_DAY"
    using d(1) hi bound unfolding td_minutes_def by linarith
  from Suc.IH [OF d(2) rel' this [unfolded B_def]] obtain s where
    "bulk_loop lower table platform G n (schedule @ [nt]) cur' = Inr s" by blast
  with g0 nt c show ?case by simp
qed

text \<open>
  C3, amended. For every platform, count \<open>N \<ge> 0\<close>, start time and gap \<open>G \<ge> 0\<close>: a
  list returned by \<^verbatim>\<open>get_bulk_schedule\<close> has exactly \<open>N\<close> entries, is non-decreasing,
  and every two consecutive entries are at least \<open>G\<close> hours apart; and the call returns
  whenever the start time plus \<open>N\<close> times (the larger of 7 days and \<open>G\<close> hours, plus
  one minute) stays inside the range of \<^verbatim>\<open>datetime\<close>.
\<close>

theorem get_bulk_schedule_spacing:
  assumes "valid_datetime from_time" and "0 \<le> count" and "0 \<le> min_hours_between"
  shows "(\<forall>s. get_bulk_schedule lower optimal_times platform count from_time min_hours_between = Inr s
            \<longrightarrow> length s = nat count
              \<and> (\<forall>i. Suc i < length s \<longrightarrow>
                    dt_le (s ! i) (s ! Suc i)
                    \<and> td_hours min_hours_between \<le> dt_sub (s ! Suc i) (s ! i)))
       \<and> (to_us from_time + count * (max (7 * US_DAY) (td_hours min_hours_between) + US_MINUTE)
              < 3652060 * US_DAY
            \<longrightarrow> (\<exists>s. get_bulk_schedule lower optimal_times platform count from_time
                        min_hours_between = Inr s))"
proof (intro conjI allI impI)
  fix s assume "get_bulk_schedule lower optimal_times platform count from_time min_hours_between = Inr s"
  then have "bulk_loop lower optimal_times platform min_hours_between (nat count) [] from_time = Inr s"
    unfolding get_bulk_schedule_def .
  from bulk_loop_Inr [OF assms(3,1) _ _ this]
  have l: "length s = nat count" and sp: "successively (spaced min_hours_between) s"
    by simp_all
  show "length s = nat count" by (rule l)
  fix i assume "Suc i < length s"
  from successively_nth [OF sp this]
  show "dt_le (s ! i) (s ! Suc i)"
    and "td_hours min_hours_between \<le> dt_sub (s ! Suc i) (s ! i)"
    unfolding spaced_def by simp_all
next
  assume "to_us from_time + count * (max (7 * US_DAY) (td_hours min_hours_between) + US_MINUTE)
              < 3652060 * US_DAY"
  with assms(2) have
    "to_us from_time + int (nat count) * (max (7 * US_DAY) (td_hours min_hours_between) + US_MINUTE)
              < 3652060 * US_DAY" by simp
  from bulk_loop_returns [OF wf_optimal_times assms(3,1) _ this]
  show "\<exists>s. get_bulk_schedule lower optimal_times platform count from_time min_hours_between = Inr s"
    unfolding get_bulk_schedule_def by simp
qed

text \<open>
  C3 as stated fails at the end of the range of \<^verbatim>\<open>datetime\<close>: from Thursday
  9999-12-30 08:00 with a gap of 48 hours the first entry is 09:00 of that day, the next
  slot (12:00) is too close, and \<^verbatim>\<open>schedule[-1] + timedelta(hours=48)\<close> raises
  \<^verbatim>\<open>OverflowError\<close>: no list of two datetimes is returned.
\<close>

theorem get_bulk_schedule_overflow_counterexample:
  "get_bulk_schedule ascii_lower optimal_times ''twitter'' 2 (mk_datetime 9999 12 30 8 0) 48
     = Inl OverflowError"
  by code_simp

text \<open>The theorem for twitter, three posts from Monday 2024-01-01 08:00, 24 hours apart:
  the second and third entries come from the forced gap.\<close>

theorem get_bulk_schedule_spacing_witness:
  "valid_datetime (mk_datetime 2024 1 1 8 0) \<and> (0::int) \<le> 3 \<and> (0::int) \<le> 24
   \<and> to_us (mk_datetime 2024 1 1 8 0) + 3 * (max (7 * US_DAY) (td_hours 24) + US_MINUTE)
        < 3652060 * US_DAY
   \<and> get_bulk_schedule ascii_lower optimal_times ''twitter'' 3 (mk_datetime 2024 1 1 8 0) 24
        = Inr [mk_datetime 2024 1 1 9 0, mk_datetime 2024 1 2 9 0, mk_datetime 2024 1 3 9 0]
   \<and> td_hours 24 \<le> dt_sub (mk_datetime 2024 1 2 9 0) (mk_datetime 2024 1 1 9 0)
   \<and> td_hours 24 \<le> dt_sub (mk_datetime 2024 1 3 9 0) (mk_datetime 2024 1 2 9 0)"
proof -
  let ?T = "mk_datetime 2024 1 1 8 0"
  let ?s = "[mk_datetime 2024 1 1 9 0, mk_datetime 2024 1 2 9 0, mk_datetime 2024 1 3 9 0]"
  have v: "valid_datetime ?T" by code_simp
  have n: "(0::int) \<le> 3" and g: "(0::int) \<le> 24" by simp_all
  have b: "to_us ?T + 3 * (max (7 * US_DAY) (td_hours 24) + US_MINUTE) < 3652060 * US_DAY"
    by code_simp
  have e: "get_bulk_schedule ascii_lower optimal_times ''twitter'' 3 ?T 24 = Inr ?s" by code_simp
  from get_bulk_schedule_spacing [where lower = ascii_lower and platform = "''twitter''", OF v n g] e
  have a: "\<forall>i. Suc i < length ?s \<longrightarrow>
      dt_le (?s ! i) (?s ! Suc i) \<and> td_hours 24 \<le> dt_sub (?s ! Suc i) (?s ! i)"
    by blast
  from a [rule_format, of 0] a [rule_format, of 1] v n g b e show ?thesis by simp
qed

section \<open>get_multi_platform_schedule\<close>

lemma to_us_dt_max: "to_us (dt_max a b) = max (to_us a) (to_us b)"
  unfolding dt_max_def dt_less_def by simp

lemma valid_dt_max: "valid_datetime a \<Longrightarrow> valid_datetime b \<Longrightarrow> valid_datetime (dt_max a b)"
  unfolding dt_max_def by simp

lemma multi_loop_Inr:
  assumes s: "0 \<le> S"
    and "valid_datetime current"
    and "\<forall>p a. schedule p = Some a \<longrightarrow> to_us a + td_minutes S \<le> to_us current"
    and "\<forall>p q a b. p \<noteq> q \<and> schedule p = Some a \<and> schedule q = Some b
            \<longrightarrow> td_minutes S \<le> \<bar>dt_sub a b\<bar>"
    and "multi_loop lower table S plats schedule current = Inr m"
  shows "(\<forall>p q a b. p \<noteq> q \<and> m p = Some a \<and> m q = Some b \<longrightarrow> td_minutes S \<le> \<bar>dt_sub a b\<bar>)
         \<and> dom m = dom schedule \<union> set plats"
  using assms(2-)
proof (induction plats arbitrary: schedule current)
  case Nil
  then show ?case by simp
next
  case (Cons x plats)
  from Cons.prems(4) obtain nt a b where
    g0: "get_optimal_time lower table x current 7 = Inr nt"
    and a: "dt_add current (td_minutes S) = Inr a"
    and b: "dt_add nt (td_minutes S) = Inr b"
    and r: "multi_loop lower table S plats (schedule(x \<mapsto> nt)) (dt_max a b) = Inr m"
    by (auto split: sum.splits)
  note o = get_optimal_time_Inr [OF Cons.prems(1) g0]
  note da = dt_add_Inr [OF a] and db = dt_add_Inr [OF b]
  have s0: "0 \<le> td_minutes S" using s unfolding td_minutes_def by simp
  have cur: "to_us (dt_max a b) = to_us nt + td_minutes S"
    unfolding to_us_dt_max da(1) db(1) using o(2) by simp
  have v': "valid_datetime (dt_max a b)" by (rule valid_dt_max [OF da(2) db(2)])
  have i1: "\<forall>p t. (schedule(x \<mapsto> nt)) p = Some t \<longrightarrow> to_us t + td_minutes S \<le> to_us (dt_max a b)"
  proof (intro allI impI)
    fix p t assume h: "(schedule(x \<mapsto> nt)) p = Some t"
    show "to_us t + td_minutes S \<le> to_us (dt_max a b)"
    proof (cases "p = x")
      case True
      with h cur show ?thesis by simp
    next
      case False
      with h have "schedule p = Some t" by simp
      with Cons.prems(2) have "to_us t + td_minutes S \<le> to_us current" by blast
      with o(2) cur s0 show ?thesis by linarith
    qed
  qed
  have far: "td_minutes S \<le> \<bar>dt_sub t nt\<bar> \<and> td_minutes S \<le> \<bar>dt_sub nt t\<bar>"
    if "schedule p = Some t" for p t
  proof -
    from that Cons.prems(2) have "to_us t + td_minutes S \<le> to_us current" by blast
    with o(2) show ?thesis unfolding dt_sub_def by linarith
  qed
  have i2: "\<forall>p q t u. p \<noteq> q \<and> (schedule(x \<mapsto> nt)) p = Some t \<and> (schedule(x \<mapsto> nt)) q = Some u
            \<longrightarrow> td_minutes S \<le> \<bar>dt_sub t u\<bar>"
  proof (intro allI impI)
    fix p q t u
    assume h: "p \<noteq> q \<and> (schedule(x \<mapsto> nt)) p = Some t \<and> (schedule(x \<mapsto> nt)) q = Some u"
    show "td_minutes S \<le> \<bar>dt_sub t u\<bar>"
    proof (cases "p = x")
      case True
      with h have "t = nt" "schedule q = Some u" by auto
      with far show ?thesis by blast
    next
      case px: False
      show ?thesis
      proof (cases "q = x")
        case True
        with h px have "u = nt" "schedule p = Some t" by auto
        with far show ?thesis by blast
      next
        case False
        with px h have "p \<noteq> q \<and> schedule p = Some t \<and> schedule q = Some u" by simp
        with Cons.prems(3) show ?thesis by blast
      qed
    qed
  qed
  from Cons.IH [OF v' i1 i2 r] show ?case by auto
qed

lemma multi_loop_returns:
  assumes w: "wf_table table" and s: "0 \<le> S"
    and "valid_datetime current"
    and "to_us current + int (length plats) * (7 * US_DAY + td_minutes S) < 3652060 * US_DAY"
  shows "\<exists>m. multi_loop lower table S plats schedule current = Inr m"
  using assms(3-)
proof (induction plats arbitrary: schedule current)
  case Nil
  then show ?case by simp
next
  case (Cons x plats)
  define B where "B = 7 * US_DAY + td_minutes S"
  have s0: "0 \<le> td_minutes S" using s unfolding td_minutes_def by simp
  then have B7: "7 * US_DAY \<le> B" unfolding B_def by simp
  have nB: "0 \<le> int (length plats) * B" using B7 by simp
  have bound: "to_us current + B + int (length plats) * B < 3652060 * US_DAY"
    using Cons.prems(2) unfolding B_def [symmetric] by (simp add: distrib_right)
  note v = Cons.prems(1)
  note tb = to_us_bounds [OF v]
  have lo: "US_DAY \<le> to_us current" using tb(1) v unfolding valid_datetime_def by linarith
  have "ordinal current + 7 \<le> MAXORDINAL" using tb(1) bound B7 nB by linarith
  from get_optimal_time_returns [OF v w _ this] obtain nt where
    g0: "get_optimal_time lower table x current 7 = Inr nt" by auto
  note o = get_optimal_time_Inr [OF v g0]
  note wk = get_optimal_time_within_week [OF v g0]
  have "US_DAY \<le> to_us current + td_minutes S" using lo s0 by linarith
  moreover have "to_us current + td_minutes S < 3652060 * US_DAY"
    using bound nB unfolding B_def by linarith
  ultimately obtain a where a: "dt_add current (td_minutes S) = Inr a"
    using dt_add_returns by blast
  have "US_DAY \<le> to_us nt + td_minutes S" using lo o(2) s0 by linarith
  moreover have "to_us nt + td_minutes S < 3652060 * US_DAY"
    using bound nB wk unfolding B_def by linarith
  ultimately obtain b where b: "dt_add nt (td_minutes S) = Inr b"
    using dt_add_returns by blast
  note da = dt_add_Inr [OF a] and db = dt_add_Inr [OF b]
  have cur: "to_us (dt_max a b) = to_us nt + td_minutes S"
    unfolding to_us_dt_max da(1) db(1) using o(2) by simp
  have v': "valid_datetime (dt_max a b)" by (rule valid_dt_max [OF da(2) db(2)])
  have "to_us (dt_max a b) + int (length plats) * B < 3652060 * US_DAY"
    using cur wk bound unfolding B_def by linarith
  from Cons.IH [OF v' this [unfolded B_def]] obtain m where
    "multi_loop lower table S plats (schedule(x \<mapsto> nt)) (dt_max a b) = Inr m" by blast
  with g0 a b show ?case by simp
qed

text \<open>
  C4. For every list of platforms, start time and \<open>stagger_minutes \<ge> 0\<close>: in a mapping
  returned by \<^verbatim>\<open>get_multi_platform_schedule\<close> the times of any two distinct platforms
  are at least \<open>stagger_minutes\<close> apart. Each lookup starts \<open>stagger_minutes\<close> after
  the previous platform's time and returns a strictly later time, so this holds also when
  the platforms share a slot. The second part says that the mapping exists, with one
  entry per platform, while the lookups stay inside the range of \<^verbatim>\<open>datetime\<close>.
\<close>

theorem get_multi_platform_schedule_stagger:
  assumes "valid_datetime from_time" and "0 \<le> stagger_minutes"
  shows "(\<forall>m p q a b.
            get_multi_platform_schedule lower optimal_times plats from_time stagger_minutes = Inr m
            \<and> p \<noteq> q \<and> m p = Some a \<and> m q = Some b
            \<longrightarrow> td_minutes stagger_minutes \<le> \<bar>dt_sub a b\<bar>)
       \<and> (to_us from_time + int (length plats) * (7 * US_DAY + td_minutes stagger_minutes)
              < 3652060 * US_DAY
            \<longrightarrow> (\<exists>m. get_multi_platform_schedule lower optimal_times plats from_time
                        stagger_minutes = Inr m \<and> dom m = set plats))"
proof (intro conjI allI impI)
  fix m p q a b
  assume h: "get_multi_platform_schedule lower optimal_times plats from_time stagger_minutes = Inr m
            \<and> p \<noteq> q \<and> m p = Some a \<and> m q = Some b"
  then have "multi_loop lower optimal_times stagger_minutes plats Map.empty from_time = Inr m"
    unfolding get_multi_platform_schedule_def by simp
  from multi_loop_Inr [OF assms(2,1) _ _ this]
  have "\<forall>p q a b. p \<noteq> q \<and> m p = Some a \<and> m q = Some b
          \<longrightarrow> td_minutes stagger_minutes \<le> \<bar>dt_sub a b\<bar>" by simp
  with h show "td_minutes stagger_minutes \<le> \<bar>dt_sub a b\<bar>" by blast
next
  assume "to_us from_time + int (length plats) * (7 * US_DAY + td_minutes stagger_minutes)
              < 3652060 * US_DAY"
  from multi_loop_returns [OF wf_optimal_times assms(2,1) this] obtain m where
    m: "multi_loop lower optimal_times stagger_minutes plats Map.empty from_time = Inr m" by blast
  from multi_loop_Inr [OF assms(2,1) _ _ m] have "dom m = set plats" by simp
  with m show "\<exists>m. get_multi_platform_schedule lower optimal_times plats from_time
                        stagger_minutes = Inr m \<and> dom m = set plats"
    unfolding get_multi_platform_schedule_def by blast
qed

text \<open>The theorem at Saturday 2024-01-06 08:00 for twitter and instagram, whose next
  slots taken alone are both Saturday 11:00: twitter gets 11:00, instagram 19:00.\<close>

theorem get_multi_platform_schedule_stagger_witness:
  "valid_datetime (mk_datetime 2024 1 6 8 0) \<and> (0::int) \<le> 15
   \<and> get_optimal_time ascii_lower optimal_times ''twitter'' (mk_datetime 2024 1 6 8 0) 7
        = Inr (mk_datetime 2024 1 6 11 0)
   \<and> get_optimal_time ascii_lower optimal_times ''instagram'' (mk_datetime 2024 1 6 8 0) 7
        = Inr (mk_datetime 2024 1 6 11 0)
   \<and> (\<exists>m. get_multi_platform_schedule ascii_lower optimal_times [''twitter'', ''instagram'']
              (mk_datetime 2024 1 6 8 0) 15 = Inr m
          \<and> m ''twitter'' = Some (mk_datetime 2024 1 6 11 0)
          \<and> m ''instagram'' = Some (mk_datetime 2024 1 6 19 0))
   \<and> td_minutes 15 \<le> \<bar>dt_sub (mk_datetime 2024 1 6 11 0) (mk_datetime 2024 1 6 19 0)\<bar>"
proof -
  let ?T = "mk_datetime 2024 1 6 8 0"
  have v: "valid_datetime ?T" by code_simp
  have s: "(0::int) \<le> 15" by simp
  have t: "get_optimal_time ascii_lower optimal_times ''twitter'' ?T 7 = Inr (mk_datetime 2024 1 6 11 0)"
    by code_simp
  have i: "get_optimal_time ascii_lower optimal_times ''instagram'' ?T 7 = Inr (mk_datetime 2024 1 6 11 0)"
    by code_simp
  have e: "case get_multi_platform_schedule ascii_lower optimal_times [''twitter'', ''instagram''] ?T 15 of
             Inl e \<Rightarrow> False
           | Inr m \<Rightarrow> m ''twitter'' = Some (mk_datetime 2024 1 6 11 0)
                    \<and> m ''instagram'' = Some (mk_datetime 2024 1 6 19 0)"
    by code_simp
  then obtain m where
    m: "get_multi_platform_schedule ascii_lower optimal_times [''twitter'', ''instagram''] ?T 15 = Inr m"
      "m ''twitter'' = Some (mk_datetime 2024 1 6 11 0)"
      "m ''instagram'' = Some (mk_datetime 2024 1 6 19 0)"
    by (auto split: sum.splits)
  have ne: "''twitter'' \<noteq> ''instagram''" by simp
  note th = get_multi_platform_schedule_stagger [where lower = ascii_lower
      and plats = "[''twitter'', ''instagram'']", OF v s,
      THEN conjunct1, rule_format, of m "''twitter''" "''instagram''"]
  from th m ne
  have d: "td_minutes 15 \<le> \<bar>dt_sub (mk_datetime 2024 1 6 11 0) (mk_datetime 2024 1 6 19 0)\<bar>"
    by blast
  from m have ex: "\<exists>m. get_multi_platform_schedule ascii_lower optimal_times [''twitter'', ''instagram'']
              (mk_datetime 2024 1 6 8 0) 15 = Inr m
          \<and> m ''twitter'' = Some (mk_datetime 2024 1 6 11 0)
          \<and> m ''instagram'' = Some (mk_datetime 2024 1 6 19 0)"
    by blast
  show ?thesis
    by (rule conjI [OF v conjI [OF s conjI [OF t conjI [OF i conjI [OF ex d]]]]])
qed

section \<open>Orchestrator: schedule_posts\<close>

lemma schedule_items_calls:
  assumes "schedule_items e p pairs items calls = (r, calls')"
  shows "\<exists>new. calls' = calls @ new \<and> (\<forall>c\<in>set new. fst c = p)"
  using assms
proof (induction pairs arbitrary: items calls)
  case Nil
  then show ?case by simp
next
  case (Cons x pairs)
  obtain i t where x: "x = (i, t)" by (cases x)
  show ?case
  proof (cases "human_review e \<and> \<not> request_human_approval e p (items ! i) t")
    case True
    with Cons.prems x have "schedule_items e p pairs items calls = (r, calls')" by simp
    from Cons.IH [OF this] show ?thesis .
  next
    case False
    have step: "schedule_items e p ((i, t) # pairs) items calls =
        (case schedule_post e p (items ! i) t of
           Raised \<Rightarrow> (None, calls @ [(p, item_id (items ! i), t, Raised)])
         | Returned st \<Rightarrow>
             schedule_items e p pairs
               (if st = ''scheduled''
                then items[i := (items ! i)\<lparr>used := True, scheduled_time := Some t\<rparr>]
                else items)
               (calls @ [(p, item_id (items ! i), t, Returned st)]))"
      unfolding schedule_items.simps using False by (rule if_not_P)
    show ?thesis
    proof (cases "schedule_post e p (items ! i) t")
      case Raised
      with step Cons.prems x have "calls' = calls @ [(p, item_id (items ! i), t, Raised)]"
        by simp
      then show ?thesis by simp
    next
      case (Returned st)
      let ?c = "(p, item_id (items ! i), t, Returned st)"
      from Returned step Cons.prems x obtain items' where
        "schedule_items e p pairs items' (calls @ [?c]) = (r, calls')"
        by simp
      from Cons.IH [OF this] obtain new where
        "calls' = (calls @ [?c]) @ new" "\<forall>c\<in>set new. fst c = p" by blast
      then have "calls' = calls @ (?c # new) \<and> (\<forall>c\<in>set (?c # new). fst c = p)" by simp
      then show ?thesis by blast
    qed
  qed
qed





lemma schedule_items_reject:
  assumes "human_review e" and "\<not> request_human_approval e p (items ! i) t"
  shows "schedule_items e p ((i, t) # rest) items calls = schedule_items e p rest items calls"
  using assms by simp

lemma schedule_items_submit:
  assumes "\<not> (human_review e \<and> \<not> request_human_approval e p (items ! i) t)"
  shows "schedule_items e p ((i, t) # rest) items calls =
        (case schedule_post e p (items ! i) t of
           Raised \<Rightarrow> (None, calls @ [(p, item_id (items ! i), t, Raised)])
         | Returned st \<Rightarrow>
             schedule_items e p rest
               (if st = ''scheduled''
                then items[i := (items ! i)\<lparr>used := True, scheduled_time := Some t\<rparr>]
                else items)
               (calls @ [(p, item_id (items ! i), t, Returned st)]))"
  unfolding schedule_items.simps using assms by (rule if_not_P)

text \<open>An entry that the reviewer rejects every time it is presented is left as it is.\<close>

lemma schedule_items_rejected_unchanged:
  assumes "schedule_items e p pairs items calls = (Some items', calls')"
    and "\<forall>t. (j, t) \<in> set pairs \<longrightarrow>
           human_review e \<and> \<not> request_human_approval e p (items ! j) t"
  shows "items' ! j = items ! j"
  using assms
proof (induction pairs arbitrary: items calls)
  case Nil
  then show ?case by simp
next
  case (Cons x pairs)
  obtain i t where x: "x = (i, t)" by (cases x)
  show ?case
  proof (cases "human_review e \<and> \<not> request_human_approval e p (items ! i) t")
    case True
    then have "schedule_items e p pairs items calls = (Some items', calls')"
      using Cons.prems(1) unfolding x by simp
    moreover have "\<forall>t. (j, t) \<in> set pairs \<longrightarrow>
           human_review e \<and> \<not> request_human_approval e p (items ! j) t"
      using Cons.prems(2) by simp
    ultimately show ?thesis by (rule Cons.IH)
  next
    case False
    with Cons.prems(2) have ij: "i \<noteq> j" unfolding x by auto
    note step = Cons.prems(1) [unfolded x schedule_items_submit [OF False]]
    show ?thesis
    proof (cases "schedule_post e p (items ! i) t")
      case Raised
      with step show ?thesis by simp
    next
      case (Returned st)
      define items1 where "items1 = (if st = ''scheduled''
                then items[i := (items ! i)\<lparr>used := True, scheduled_time := Some t\<rparr>]
                else items)"
      have same: "items1 ! j = items ! j" unfolding items1_def using ij by simp
      from step have "schedule_items e p pairs items1
          (calls @ [(p, item_id (items ! i), t, Returned st)]) = (Some items', calls')"
        unfolding Returned items1_def by simp
      moreover have "\<forall>t. (j, t) \<in> set pairs \<longrightarrow>
           human_review e \<and> \<not> request_human_approval e p (items1 ! j) t"
        unfolding same using Cons.prems(2) by simp
      ultimately have "items' ! j = items1 ! j" by (rule Cons.IH)
      with same show ?thesis by simp
    qed
  qed
qed

text \<open>An entry is marked used only when \<^verbatim>\<open>schedule_post\<close> has returned the status
  \<^verbatim>\<open>scheduled\<close> for it.\<close>

lemma schedule_items_used_after_success:
  assumes "schedule_items e p pairs items calls = (Some items', calls')"
    and "j < length items"
  shows "item_id (items' ! j) = item_id (items ! j)
         \<and> (used (items' ! j) \<longrightarrow> used (items ! j)
              \<or> (\<exists>t. (p, item_id (items ! j), t, Returned ''scheduled'') \<in> set calls'))"
  using assms
proof (induction pairs arbitrary: items calls)
  case Nil
  then show ?case by simp
next
  case (Cons x pairs)
  obtain i t where x: "x = (i, t)" by (cases x)
  show ?case
  proof (cases "human_review e \<and> \<not> request_human_approval e p (items ! i) t")
    case True
    then have "schedule_items e p pairs items calls = (Some items', calls')"
      using Cons.prems(1) unfolding x by simp
    from Cons.IH [OF this Cons.prems(2)] show ?thesis .
  next
    case False
    note step = Cons.prems(1) [unfolded x schedule_items_submit [OF False]]
    show ?thesis
    proof (cases "schedule_post e p (items ! i) t")
      case Raised
      with step show ?thesis by simp
    next
      case (Returned st)
      let ?c = "(p, item_id (items ! i), t, Returned st)"
      define items1 where "items1 = (if st = ''scheduled''
                then items[i := (items ! i)\<lparr>used := True, scheduled_time := Some t\<rparr>]
                else items)"
      have len: "j < length items1" unfolding items1_def using Cons.prems(2) by simp
      have id1: "item_id (items1 ! j) = item_id (items ! j)"
        unfolding items1_def using Cons.prems(2) by (cases "i = j") simp_all
      have u1: "used (items1 ! j) \<longrightarrow> used (items ! j) \<or> (i = j \<and> st = ''scheduled'')"
        unfolding items1_def using Cons.prems(2) by (cases "i = j") simp_all
      from step have rest: "schedule_items e p pairs items1 (calls @ [?c]) = (Some items', calls')"
        unfolding Returned items1_def by simp
      from schedule_items_calls [OF rest] obtain new where
        new: "calls' = (calls @ [?c]) @ new" by auto
      then have mem: "?c \<in> set calls'" by simp
      from Cons.IH [OF rest len]
      have ih1: "item_id (items' ! j) = item_id (items1 ! j)"
        and ih2: "used (items' ! j) \<longrightarrow> used (items1 ! j)
              \<or> (\<exists>t. (p, item_id (items1 ! j), t, Returned ''scheduled'') \<in> set calls')"
        by simp_all
      show ?thesis
      proof (intro conjI impI)
        show "item_id (items' ! j) = item_id (items ! j)" using ih1 id1 by simp
        assume "used (items' ! j)"
        with ih2 have "used (items1 ! j)
              \<or> (\<exists>t. (p, item_id (items ! j), t, Returned ''scheduled'') \<in> set calls')"
          unfolding id1 by simp
        then show "used (items ! j)
              \<or> (\<exists>t. (p, item_id (items ! j), t, Returned ''scheduled'') \<in> set calls')"
        proof
          assume "used (items1 ! j)"
          with u1 have "used (items ! j) \<or> (i = j \<and> st = ''scheduled'')" by simp
          then show ?thesis
          proof
            assume "used (items ! j)"
            then show ?thesis by simp
          next
            assume "i = j \<and> st = ''scheduled''"
            with mem have "(p, item_id (items ! j), t, Returned ''scheduled'') \<in> set calls'"
              by simp
            then show ?thesis by auto
          qed
        next
          assume "\<exists>t. (p, item_id (items ! j), t, Returned ''scheduled'') \<in> set calls'"
          then show ?thesis by simp
        qed
      qed
    qed
  qed
qed


lemma generate_all_other:
  assumes "q \<notin> set ps"
  shows "fst (generate_all e ps content_pool calls) q = content_pool q"
  using assms
  by (induction ps arbitrary: content_pool calls) (auto split: gen_outcome.splits option.splits)

lemma generate_all_isolated:
  assumes "distinct ps" and "q \<in> set ps"
    and "generate_for_platform e q = Content c" and "content_pool q = Some items"
  shows "fst (generate_all e ps content_pool calls) q = Some (items @ [c\<lparr>used := False\<rparr>])"
  using assms
proof (induction ps arbitrary: content_pool calls)
  case Nil
  then show ?case by simp
next
  case (Cons p ps)
  show ?case
  proof (cases "p = q")
    case True
    with Cons.prems have "q \<notin> set ps" by simp
    from generate_all_other [OF this] True Cons.prems(3,4) show ?thesis by simp
  next
    case False
    with Cons.prems have d: "distinct ps" and m: "q \<in> set ps" by simp_all
    have "\<exists>pool'. generate_all e (p # ps) content_pool calls
              = generate_all e ps pool' (calls @ [p])
            \<and> pool' q = Some items"
      using False Cons.prems(4) by (auto split: gen_outcome.splits option.splits)
    then obtain pool' where
      eq: "generate_all e (p # ps) content_pool calls = generate_all e ps pool' (calls @ [p])"
      and pq: "pool' q = Some items" by auto
    from Cons.IH [where content_pool = pool' and calls = "calls @ [p]", OF d m Cons.prems(3) pq] eq
    show ?thesis by simp
  qed
qed









text \<open>
  C2, at the failing input. The pool file has no key for instagram. On Monday the twitter
  entry is submitted and accepted, then \<^verbatim>\<open>content_pool['instagram']\<close> raises
  \<^verbatim>\<open>KeyError\<close>, \<^verbatim>\<open>schedule_posts\<close> returns without saving, and the file still
  shows the twitter entry as unused. On Tuesday the same entry is submitted and accepted
  again: the item is scheduled twice.
\<close>

theorem double_scheduling_after_aborted_cycle:
  "unused_content [twitter_item] = [0]
   \<and> store (run_daily_cycle ascii_lower monday_env two_platform_file) ''twitter'' = Some [twitter_item]
   \<and> post_calls (run_daily_cycle ascii_lower tuesday_env (run_daily_cycle ascii_lower monday_env two_platform_file))
       = [(''twitter'', ''twitter_1'', mk_datetime 2024 1 1 9 0, Returned ''scheduled''),
          (''twitter'', ''twitter_1'', mk_datetime 2024 1 2 9 0, Returned ''scheduled'')]"
  by code_simp

text \<open>
  C8, at the failing input. With the same pool file, the \<^verbatim>\<open>KeyError\<close> raised for
  instagram ends the platform loop: linkedin, which holds an unused entry, gets no post and
  \<^verbatim>\<open>schedule_posts\<close> returns \<^verbatim>\<open>False\<close>. Likewise, with a complete pool file and a
  scheduler agent that raises on the twitter post, nothing is submitted for linkedin.
\<close>

theorem failure_stops_remaining_platforms:
  "store two_platform_file ''linkedin'' = Some [linkedin_item]
   \<and> unused_content [linkedin_item] = [0]
   \<and> fst (schedule_posts ascii_lower monday_env two_platform_file) = False
   \<and> post_calls (snd (schedule_posts ascii_lower monday_env two_platform_file))
       = [(''twitter'', ''twitter_1'', mk_datetime 2024 1 1 9 0, Returned ''scheduled'')]
   \<and> store (snd (schedule_posts ascii_lower monday_env two_platform_file)) ''linkedin'' = Some [linkedin_item]
   \<and> fst (schedule_posts ascii_lower raising_env three_platform_file) = False
   \<and> post_calls (snd (schedule_posts ascii_lower raising_env three_platform_file))
       = [(''twitter'', ''twitter_1'', mk_datetime 2024 1 1 9 0, Raised)]"
  by code_simp

section \<open>PostDispatcher: dry run\<close>

text \<open>
  C9. In dry-run mode \<^verbatim>\<open>schedule_post\<close> ends with status \<open>dispatched\<close> and makes no
  call to the publisher, whatever the publisher would answer; the post and the statuses it
  goes through are those of a real run whose publish call succeeds.
\<close>

theorem dry_run_dispatched:
  "status (post (dispatcher_schedule_post True max_retries publisher platform content t pid))
     = Dispatched
   \<and> publisher_calls (dispatcher_schedule_post True max_retries publisher platform content t pid)
     = 0
   \<and> history (dispatcher_schedule_post True max_retries publisher platform content t pid)
     = history (dispatcher_schedule_post False max_retries (\<lambda>n. Published) platform content t pid)
   \<and> post (dispatcher_schedule_post True max_retries publisher platform content t pid)
     = post (dispatcher_schedule_post False max_retries (\<lambda>n. Published) platform content t pid)"
  unfolding dispatcher_schedule_post_def
  by (simp add: publish_with_retry.simps [of True] publish_with_retry.simps [of False _ "\<lambda>n. Published"])

end
